theory Spec2Isabelle
  imports Complex_Main
begin

section \<open>Supervised worker processes (core\_server)\<close>

text \<open>
  The body of a worker is the call \<^verbatim>\<open>multiprocessing.Process.run(self)\<close>, which runs
  \<^verbatim>\<open>serve(...)\<close>. It either returns or raises; a raise carries the exception and the text
  that \<^verbatim>\<open>traceback.format_exc()\<close> produces for it. Python's exception hierarchy matters
  for \<^verbatim>\<open>except Exception\<close>: \<^verbatim>\<open>KeyboardInterrupt\<close> and \<^verbatim>\<open>SystemExit\<close> are not instances
  of \<^verbatim>\<open>Exception\<close>.
\<close>

datatype exc = Exception string | KeyboardInterrupt | SystemExit int

datatype body = Returns | Raises exc string

type_synonym message = "(exc \<times> string) option"

text \<open>
  \<^verbatim>\<open>Process.run\<close>: the messages written to \<^verbatim>\<open>_child_conn\<close> and the exception that leaves
  the method, if any. The handler sends the pair and does not raise again (the
  \<^verbatim>\<open>raise e\<close> is commented out in the source).
\<close>

definition Process_run :: "body \<Rightarrow> message list \<times> exc option" where
  "Process_run b =
     (case b of
        Returns \<Rightarrow> ([None], None)
      | Raises e tb \<Rightarrow>
          (case e of
             Exception m \<Rightarrow> ([Some (e, tb)], None)
           | KeyboardInterrupt \<Rightarrow> ([], Some e)
           | SystemExit c \<Rightarrow> ([], Some e)))"

text \<open>
  The exit status the multiprocessing library gives a child whose \<^verbatim>\<open>run\<close> has ended:
  0 when \<^verbatim>\<open>run\<close> returned, the code of a \<^verbatim>\<open>SystemExit\<close> (as the operating system
  truncates it), 1 for any other exception that left \<^verbatim>\<open>run\<close>.
\<close>

definition bootstrap_exitcode :: "exc option \<Rightarrow> int" where
  "bootstrap_exitcode r =
     (case r of
        None \<Rightarrow> 0
      | Some (SystemExit c) \<Rightarrow> c mod 256
      | Some _ \<Rightarrow> 1)"

text \<open>
  What the parent can observe of a child at one moment: \<^verbatim>\<open>is_alive()\<close>, \<^verbatim>\<open>exitcode\<close>
  and the messages the child has written to the pipe so far.
\<close>

record status =
  alive :: bool
  exitcode :: "int option"
  pipe :: "message list"

text \<open>
  The parent's \<^verbatim>\<open>Process\<close> object: how many messages it has taken from
  \<^verbatim>\<open>_parent_conn\<close>, the field \<^verbatim>\<open>_exception\<close>, and whether \<^verbatim>\<open>terminate()\<close> and
  \<^verbatim>\<open>join()\<close> have been called on it.
\<close>

record process =
  received :: nat
  p_exception :: message
  terminated :: bool
  joined :: bool

definition new_process :: process where
  "new_process = \<lparr>received = 0, p_exception = None, terminated = False, joined = False\<rparr>"

text \<open>
  The property \<^verbatim>\<open>exception\<close>: when \<^verbatim>\<open>_parent_conn.poll()\<close> finds a message it is received
  and stored in \<^verbatim>\<open>_exception\<close>; the stored value is returned.
\<close>

definition exception :: "status \<Rightarrow> process \<Rightarrow> message \<times> process" where
  "exception st p =
     (if received p < length (pipe st)
      then (pipe st ! received p,
            p\<lparr>received := Suc (received p), p_exception := pipe st ! received p\<rparr>)
      else (p_exception p, p))"

datatype error =
    ChildProcessError string
  | TypeError
  | KeyError
  | ValueError
  | AttributeError
  | IndexError

text \<open>
  The dictionary \<^verbatim>\<open>processes\<close> maps the launch index to the pair of the process and
  its configuration; Python dictionaries keep insertion order, so it is an association
  list with distinct keys.
\<close>

type_synonym 'c processes = "(nat \<times> process \<times> 'c) list"

definition terminate_all :: "'c processes \<Rightarrow> 'c processes" where
  "terminate_all ps = map (\<lambda>(n, p, c). (n, p\<lparr>terminated := True\<rparr>, c)) ps"

definition store :: "nat \<Rightarrow> process \<Rightarrow> 'c processes \<Rightarrow> 'c processes" where
  "store n p' ps = map (\<lambda>(k, p, c). if k = n then (k, p', c) else (k, p, c)) ps"

definition del :: "nat \<Rightarrow> 'c processes \<Rightarrow> 'c processes" where
  "del n ps = filter (\<lambda>(k, p, c). k \<noteq> n) ps"

datatype 'a step = Raise error 'a | Continue 'a

text \<open>
  Lines 180 to 194 for one key \<open>n\<close>, after the \<^verbatim>\<open>sleep(1)\<close>: \<open>st\<close> is what the parent
  observes of that child. The second component is the dictionary afterwards.
  \<^verbatim>\<open>p.exception\<close> is read twice on the fault branch (the test and the unpacking).
\<close>

definition check :: "status \<Rightarrow> nat \<Rightarrow> 'c processes \<Rightarrow> ('c processes) step" where
  "check st n ps =
     (case map_of ps n of
        None \<Rightarrow> Raise KeyError ps
      | Some (p, c) \<Rightarrow>
          if \<not> alive st then
            if exitcode st = None then
              Raise (ChildProcessError ''Not started and not exited!'') (terminate_all ps)
            else
              (case exception st p of
                 (Some f, p1) \<Rightarrow>
                   (case exception st p1 of
                      (Some (err, trace), p2) \<Rightarrow>
                        Raise (ChildProcessError trace) (terminate_all (store n p2 ps))
                    | (None, p2) \<Rightarrow> Raise TypeError (store n p2 ps))
               | (None, p1) \<Rightarrow>
                   if exitcode st = Some 0
                   then Continue (del n (store n (p1\<lparr>joined := True\<rparr>) ps))
                   else Continue (store n p1 ps))
          else Continue ps)"

text \<open>
  The world gives, for each tick of the parent's clock and each launch index, the
  status of that child. Every \<^verbatim>\<open>sleep(1)\<close> advances the clock by one tick.
\<close>

type_synonym world = "nat \<Rightarrow> nat \<Rightarrow> status"

text \<open>
  One pass of \<^verbatim>\<open>for n in list(processes)\<close> over the keys taken at its start. The
  loop carries the list of the keys it has polled so far, in order; each poll follows
  one \<^verbatim>\<open>sleep(1)\<close>, so the clock stands at the length of that list, and the \<open>i\<close>-th
  poll (from 0) sees the world at tick \<open>i + 1\<close>.
\<close>

fun poll :: "world \<Rightarrow> nat list \<Rightarrow> nat list \<Rightarrow> 'c processes
    \<Rightarrow> (nat list \<times> 'c processes) step" where
  "poll w polled [] ps = Continue (polled, ps)"
| "poll w polled (n # ns) ps =
     (case check (w (Suc (length polled)) n) n ps of
        Raise e ps' \<Rightarrow> Raise e (polled @ [n], ps')
      | Continue ps' \<Rightarrow> poll w (polled @ [n]) ns ps')"

text \<open>
  \<^verbatim>\<open>while len(processes) > 0\<close>: the loop may run forever, so it takes fuel, one unit
  for each pass; \<open>None\<close> means the fuel ran out with the loop still polling. An outcome
  carries the keys polled and the dictionary as the loop left it.
\<close>

datatype 'a outcome = Returned 'a | Raised error 'a

fun supervise :: "nat \<Rightarrow> world \<Rightarrow> nat list \<Rightarrow> 'c processes
    \<Rightarrow> (nat list \<times> 'c processes) outcome option" where
  "supervise 0 w polled ps = None"
| "supervise (Suc fuel) w polled ps =
     (if length ps > 0 then
        (case poll w polled (map fst ps) ps of
           Raise e r \<Rightarrow> Some (Raised e r)
         | Continue (polled', ps') \<Rightarrow> supervise fuel w polled' ps')
      else Some (Returned (polled, ps)))"

text \<open>
  \<^verbatim>\<open>neuron.run\<close>: a single configuration is served in the calling process, from
  \<^verbatim>\<open>self.config\<close>; otherwise one process is started for each configuration, keyed by
  its position, and the supervision loop runs from tick 0, with nothing polled yet.
\<close>

definition launch :: "'c list \<Rightarrow> 'c processes" where
  "launch cfgs = map (\<lambda>(n, c). (n, new_process, c)) (enumerate 0 cfgs)"

datatype 'c ran = Served 'c | Supervised "(nat list \<times> 'c processes) outcome option"

definition neuron_run :: "nat \<Rightarrow> world \<Rightarrow> 'c \<Rightarrow> 'c list \<Rightarrow> 'c ran" where
  "neuron_run fuel w config shared_subconfigs =
     (if length shared_subconfigs = 1 then Served config
      else Supervised (supervise fuel w [] (launch shared_subconfigs)))"

text \<open>
  The life of one child: it runs forever, or its \<^verbatim>\<open>run\<close> ends at some tick with the
  given body outcome, or it is killed at some tick (by a signal, say) with the given
  exit status before \<^verbatim>\<open>run\<close> has sent anything. A child that has ended stays
  ended; what it has sent and its exit status are those of \<open>Process_run\<close>. Sending is
  the last statement of \<^verbatim>\<open>run\<close>, so the parent sees the message from the tick at which
  the child has ended: a fault slot that holds a pair belongs to a child that is no
  longer alive.
\<close>

datatype fate = Runs | Exits nat body | Killed nat int

definition running :: status where
  "running = \<lparr>alive = True, exitcode = None, pipe = []\<rparr>"

definition ended :: "body \<Rightarrow> status" where
  "ended b = \<lparr>alive = False,
              exitcode = Some (bootstrap_exitcode (snd (Process_run b))),
              pipe = fst (Process_run b)\<rparr>"

fun status_at :: "fate \<Rightarrow> nat \<Rightarrow> status" where
  "status_at Runs t = running"
| "status_at (Exits tau b) t = (if t < tau then running else ended b)"
| "status_at (Killed tau c) t =
     (if t < tau then running else \<lparr>alive = False, exitcode = Some c, pipe = []\<rparr>)"

definition fate_world :: "(nat \<Rightarrow> fate) \<Rightarrow> world" where
  "fate_world fates t n = status_at (fates n) t"

text \<open>
  For the properties of the loop: the trace in the fault slot of a child at a tick (when
  its body has raised an \<^verbatim>\<open>Exception\<close> by then), the keys of a dictionary, a dictionary
  of \<^verbatim>\<open>Process\<close> objects that have received nothing yet, and a child that at some tick
  has exit status 0 and no fault.
\<close>

definition fault_trace :: "fate \<Rightarrow> nat \<Rightarrow> string option" where
  "fault_trace f t =
     (case f of
        Exits tau (Raises (Exception m) tb) \<Rightarrow> if t < tau then None else Some tb
      | _ \<Rightarrow> None)"

definition keys_of :: "'c processes \<Rightarrow> nat set" where
  "keys_of ps = fst ` set ps"

definition fresh :: "'c processes \<Rightarrow> bool" where
  "fresh ps = (\<forall>x\<in>set ps. fst (snd x) = new_process)"

definition exits0 :: "(nat \<Rightarrow> fate) \<Rightarrow> nat \<Rightarrow> bool" where
  "exits0 fates n =
     (\<exists>t. exitcode (status_at (fates n) t) = Some 0 \<and> fault_trace (fates n) t = None)"

section \<open>Identity fan-out (create\_shared\_subconfigs)\<close>

text \<open>\<^verbatim>\<open>str.split(sep)\<close> for a separator of one character: one more piece than separators.\<close>

fun py_split :: "char \<Rightarrow> string \<Rightarrow> string list" where
  "py_split sep [] = [[]]"
| "py_split sep (c # cs) =
     (if c = sep then [] # py_split sep cs
      else (case py_split sep cs of
              [] \<Rightarrow> [[c]]
            | x # xs \<Rightarrow> (c # x) # xs))"

text \<open>
  \<^verbatim>\<open>int(s)\<close> on a string of ASCII characters: surrounding whitespace is stripped, one
  sign is allowed, then decimal digits, where a single underscore may stand between two
  digits. Anything else raises \<^verbatim>\<open>ValueError\<close> (here \<open>None\<close>).
\<close>

definition is_space :: "char \<Rightarrow> bool" where
  "is_space c =
     (c \<in> set [CHR '' '', CHR 0x09, CHR 0x0A, CHR 0x0B, CHR 0x0C, CHR 0x0D,
                CHR 0x1C, CHR 0x1D, CHR 0x1E, CHR 0x1F])"

definition strip :: "string \<Rightarrow> string" where
  "strip s = rev (dropWhile is_space (rev (dropWhile is_space s)))"

definition digit :: "char \<Rightarrow> nat option" where
  "digit c =
     (if (48::nat) \<le> of_char c \<and> of_char c \<le> (57::nat) then Some (of_char c - 48) else None)"

fun digits :: "nat \<Rightarrow> string \<Rightarrow> nat option" where
  "digits acc [] = Some acc"
| "digits acc (c # cs) =
     (if c = CHR ''_'' then
        (case cs of
           [] \<Rightarrow> None
         | d # ds \<Rightarrow>
             (case digit d of None \<Rightarrow> None | Some v \<Rightarrow> digits (10 * acc + v) ds))
      else (case digit c of None \<Rightarrow> None | Some v \<Rightarrow> digits (10 * acc + v) cs))"

definition unsigned :: "string \<Rightarrow> nat option" where
  "unsigned s =
     (case s of
        [] \<Rightarrow> None
      | d # ds \<Rightarrow> (case digit d of None \<Rightarrow> None | Some v \<Rightarrow> digits v ds))"

definition py_int :: "string \<Rightarrow> int option" where
  "py_int s =
     (case strip s of
        [] \<Rightarrow> None
      | c # cs \<Rightarrow>
          if c = CHR ''-'' then map_option (\<lambda>n. - int n) (unsigned cs)
          else if c = CHR ''+'' then map_option int (unsigned cs)
          else map_option int (unsigned (c # cs)))"

text \<open>
  A configuration is an object that refers to its namespaces, which are objects of
  their own; \<^verbatim>\<open>copy.deepcopy\<close> and the assignments of the loop act on these
  objects. The store is a list of objects, an address is a position in it. Of the
  namespaces, \<^verbatim>\<open>wallet\<close> and \<^verbatim>\<open>axon\<close> are the ones the function reads and writes.
\<close>

type_synonym addr = nat

record wallet =
  name :: string
  hotkey :: string
  shared_keys :: "string option"

record axon =
  port :: int
  shared_ports :: "string option"

datatype obj = Wallet wallet | Axon axon | Config addr addr

type_synonym heap = "obj list"

definition lookup :: "heap \<Rightarrow> addr \<Rightarrow> obj option" where
  "lookup h a = (if a < length h then Some (h ! a) else None)"

text \<open>
  \<^verbatim>\<open>copy.deepcopy(config)\<close>: new objects for the configuration and for each namespace.
\<close>

definition deepcopy :: "heap \<Rightarrow> addr \<Rightarrow> error + (addr \<times> heap)" where
  "deepcopy h c =
     (case lookup h c of
        Some (Config wa xa) \<Rightarrow>
          (case lookup h wa of
             Some (Wallet w) \<Rightarrow>
               (case lookup h xa of
                  Some (Axon x) \<Rightarrow>
                    Inr (length h + 2,
                         h @ [Wallet w, Axon x, Config (length h) (length h + 1)])
                | _ \<Rightarrow> Inl AttributeError)
           | _ \<Rightarrow> Inl AttributeError)
      | _ \<Rightarrow> Inl AttributeError)"

text \<open>An assignment to an attribute of \<^verbatim>\<open>c.wallet\<close>, and one to an attribute of \<^verbatim>\<open>c.axon\<close>.\<close>

definition set_wallet :: "heap \<Rightarrow> addr \<Rightarrow> (wallet \<Rightarrow> wallet) \<Rightarrow> error + heap" where
  "set_wallet h c f =
     (case lookup h c of
        Some (Config wa xa) \<Rightarrow>
          (case lookup h wa of
             Some (Wallet w) \<Rightarrow> Inr (h[wa := Wallet (f w)])
           | _ \<Rightarrow> Inl AttributeError)
      | _ \<Rightarrow> Inl AttributeError)"

definition set_axon :: "heap \<Rightarrow> addr \<Rightarrow> (axon \<Rightarrow> axon) \<Rightarrow> error + heap" where
  "set_axon h c f =
     (case lookup h c of
        Some (Config wa xa) \<Rightarrow>
          (case lookup h xa of
             Some (Axon x) \<Rightarrow> Inr (h[xa := Axon (f x)])
           | _ \<Rightarrow> Inl AttributeError)
      | _ \<Rightarrow> Inl AttributeError)"

text \<open>
  The loop \<^verbatim>\<open>for key, port in zip(keylist, portlist)\<close>. \<^verbatim>\<open>zip\<close> takes the next key,
  then the next port, and stops when either list is exhausted; \<^verbatim>\<open>portlist\<close> is a lazy
  \<^verbatim>\<open>map(int, ...)\<close>, so a port is parsed when it is taken. The unpacking
  \<^verbatim>\<open>coldkey, hotkey = key.split(":")\<close> needs exactly two pieces.
\<close>

fun fan_out :: "heap \<Rightarrow> addr \<Rightarrow> string list \<Rightarrow> string list \<Rightarrow> addr list
    \<Rightarrow> error + (addr list \<times> heap)" where
  "fan_out h config [] portlist subs = Inr (subs, h)"
| "fan_out h config (key # keylist) [] subs = Inr (subs, h)"
| "fan_out h config (key # keylist) (p # portlist) subs =
     (case py_int p of
        None \<Rightarrow> Inl ValueError
      | Some number \<Rightarrow>
          (case py_split CHR '':'' key of
             [coldkey, hot] \<Rightarrow>
               (case deepcopy h config of
                  Inl e \<Rightarrow> Inl e
                | Inr (sub, h1) \<Rightarrow>
                    (case set_wallet h1 sub (\<lambda>w. w\<lparr>name := coldkey\<rparr>) of
                       Inl e \<Rightarrow> Inl e
                     | Inr h2 \<Rightarrow>
                         (case set_wallet h2 sub (\<lambda>w. w\<lparr>hotkey := hot\<rparr>) of
                            Inl e \<Rightarrow> Inl e
                          | Inr h3 \<Rightarrow>
                              (case set_axon h3 sub (\<lambda>x. x\<lparr>port := number\<rparr>) of
                                 Inl e \<Rightarrow> Inl e
                               | Inr h4 \<Rightarrow> fan_out h4 config keylist portlist (subs @ [sub])))))
           | _ \<Rightarrow> Inl ValueError))"

text \<open>
  \<^verbatim>\<open>create_shared_subconfigs\<close>. Without \<^verbatim>\<open>shared_keys\<close> the result is the
  configuration itself (the same object). \<^verbatim>\<open>config.axon.shared_ports.split\<close> on
  \<^verbatim>\<open>None\<close> raises \<^verbatim>\<open>AttributeError\<close>.
\<close>

definition create_shared_subconfigs :: "heap \<Rightarrow> addr \<Rightarrow> error + (addr list \<times> heap)" where
  "create_shared_subconfigs h config =
     (case lookup h config of
        Some (Config wa xa) \<Rightarrow>
          (case lookup h wa of
             Some (Wallet w) \<Rightarrow>
               (case shared_keys w of
                  None \<Rightarrow> Inr ([config], h)
                | Some ks \<Rightarrow>
                    (case lookup h xa of
                       Some (Axon x) \<Rightarrow>
                         (case shared_ports x of
                            None \<Rightarrow> Inl AttributeError
                          | Some ps \<Rightarrow>
                              fan_out h config (py_split CHR '','' ks) (py_split CHR '','' ps) [])
                     | _ \<Rightarrow> Inl AttributeError))
           | _ \<Rightarrow> Inl AttributeError)
      | _ \<Rightarrow> Inl AttributeError)"

text \<open>
  The part of \<^verbatim>\<open>neuron.__init__\<close> that builds the object: the sub-configurations are
  made there, so a raise of \<open>create_shared_subconfigs\<close> leaves no neuron whose
  \<^verbatim>\<open>run\<close> could start a process.
\<close>

record neuron =
  config :: addr
  shared_subconfigs :: "addr list"

definition neuron_init :: "heap \<Rightarrow> addr \<Rightarrow> error + (neuron \<times> heap)" where
  "neuron_init h cfg =
     (case create_shared_subconfigs h cfg of
        Inl e \<Rightarrow> Inl e
      | Inr (subs, h') \<Rightarrow> Inr (\<lparr>config = cfg, shared_subconfigs = subs\<rparr>, h'))"

text \<open>
  What a configuration denotes in a store (its two namespaces), and the addresses it
  occupies there.
\<close>

definition view :: "heap \<Rightarrow> addr \<Rightarrow> (wallet \<times> axon) option" where
  "view h c =
     (case lookup h c of
        Some (Config wa xa) \<Rightarrow>
          (case lookup h wa of
             Some (Wallet w) \<Rightarrow>
               (case lookup h xa of
                  Some (Axon x) \<Rightarrow> Some (w, x)
                | _ \<Rightarrow> None)
           | _ \<Rightarrow> None)
      | _ \<Rightarrow> None)"

definition footprint :: "heap \<Rightarrow> addr \<Rightarrow> addr set" where
  "footprint h c =
     (case lookup h c of
        Some (Config wa xa) \<Rightarrow> {c, wa, xa}
      | _ \<Rightarrow> {c})"

section \<open>The training loop of the miner (gpt2-wiki)\<close>

text \<open>
  Tensors of floating-point numbers are lists of reals: the arithmetic is exact, so
  rounding is outside this model. A matrix is the list of its rows, all of one length.
\<close>

type_synonym vec = "real list"

type_synonym matrix = "real list list"

record net_output =
  weights :: matrix
  local_target_loss :: real

record chain_state =
  neurons :: "nat list"
  W :: matrix

text \<open>The outcome of a call into a collaborator: it raises, or it gives a value.\<close>

datatype 'a call = Fails exc | Gives 'a

text \<open>
  The calls the loop makes that the properties speak of, in the order made:
  the log line with the step counters, \<^verbatim>\<open>metagraph.emit(row, wait_for_inclusion)\<close>,
  \<^verbatim>\<open>metagraph.sync()\<close>, \<^verbatim>\<open>axon.set_priority(neurons, col)\<close>, and the error log of the
  handler.
\<close>

datatype event =
    Info int int int
  | Emit vec bool
  | Sync
  | SetPriority "nat list" vec
  | LogError exc

record train_config =
  sync_interval :: int
  log_interval :: int

text \<open>
  What the collaborators do during one pass through the loop body:
  \<open>forward\<close> is \<^verbatim>\<open>nextbatch\<close> and \<^verbatim>\<open>net(inputs, ...)\<close>, \<open>backward\<close> the backward pass
  and the optimizer, \<open>logging\<close> the log line, then \<^verbatim>\<open>log_all\<close>, the three
  \<^verbatim>\<open>tensorboard.add_scalar\<close>, \<^verbatim>\<open>emit\<close>, \<^verbatim>\<open>sync\<close> (with the state it pulls),
  \<^verbatim>\<open>set_priority\<close> and \<^verbatim>\<open>torch.cuda.empty_cache\<close>.
\<close>

record batch_env =
  forward :: "net_output call"
  backward :: "unit call"
  logging :: "unit call"
  log_all :: "unit call"
  tensorboard :: "unit call"
  emit :: "unit call"
  sync :: "chain_state call"
  set_priority :: "unit call"
  empty_cache :: "unit call"

text \<open>The variables of \<^verbatim>\<open>train\<close> (\<open>last_output\<close> is \<^verbatim>\<open>output\<close>) and the calls made so far.\<close>

record train_state =
  row_weights :: vec
  history :: "net_output list"
  local_step :: int
  global_step :: int
  last_output :: "net_output option"
  metagraph :: chain_state
  events :: "event list"

text \<open>
  \<^verbatim>\<open>torch.mean(output.weights, axis = 0)\<close>: the mean of each column over the batch. The
  batch is not empty (\<^verbatim>\<open>check_config\<close> asserts \<^verbatim>\<open>batch_size_train > 0\<close>).
\<close>

definition torch_mean :: "matrix \<Rightarrow> vec" where
  "torch_mean rows =
     (case rows of
        [] \<Rightarrow> []
      | r # rs \<Rightarrow>
          map (\<lambda>j. sum_list (map (\<lambda>row. row ! j) rows) / real (length rows)) [0..<length r])"

text \<open>
  \<^verbatim>\<open>(1 - 0.03) * row_weights + 0.03 * batch_weights\<close> on tensors of one dimension: of equal
  size, or one of them of size 1 (broadcast); other sizes raise \<^verbatim>\<open>RuntimeError\<close>.
\<close>

definition moving_avg :: "vec \<Rightarrow> vec \<Rightarrow> exc + vec" where
  "moving_avg row batch =
     (if length row = length batch
      then Inr (map2 (\<lambda>r b. (1 - 0.03) * r + 0.03 * b) row batch)
      else if length row = 1
      then Inr (map (\<lambda>b. (1 - 0.03) * hd row + 0.03 * b) batch)
      else if length batch = 1
      then Inr (map (\<lambda>r. (1 - 0.03) * r + 0.03 * hd batch) row)
      else Inl (Exception ''RuntimeError''))"

text \<open>
  \<^verbatim>\<open>F.normalize(v, p = 1, dim = 0)\<close>: every entry divided by the larger of the sum of
  absolute values and \<^verbatim>\<open>eps = 1e-12\<close>.
\<close>

definition F_normalize :: "vec \<Rightarrow> vec" where
  "F_normalize v = map (\<lambda>a. a / max (sum_list (map abs v)) (1 / 10 ^ 12)) v"

text \<open>\<^verbatim>\<open>W[0, :]\<close> and \<^verbatim>\<open>W[:, 0]\<close>; an index out of range raises \<^verbatim>\<open>IndexError\<close>.\<close>

definition row0 :: "matrix \<Rightarrow> exc + vec" where
  "row0 m = (case m of [] \<Rightarrow> Inl (Exception ''IndexError'') | r # rs \<Rightarrow> Inr r)"

definition col0 :: "matrix \<Rightarrow> exc + vec" where
  "col0 m = (if \<exists>r \<in> set m. r = [] then Inl (Exception ''IndexError'') else Inr (map hd m))"

text \<open>
  Statements in sequence, each of which may raise: the pair is the exception raised, if
  any, and the state as the statements executed so far have left it.
\<close>

definition then_do ::
  "exc option \<times> 's \<Rightarrow> ('s \<Rightarrow> exc option \<times> 's) \<Rightarrow> exc option \<times> 's" where
  "then_do r f = (case r of (None, s) \<Rightarrow> f s | (Some e, s) \<Rightarrow> (Some e, s))"

definition call :: "'a call \<Rightarrow> 's \<Rightarrow> exc option \<times> 's" where
  "call c s = (case c of Fails e \<Rightarrow> (Some e, s) | Gives v \<Rightarrow> (None, s))"

text \<open>Lines 118 and 119: \<^verbatim>\<open>%\<close> by zero raises \<^verbatim>\<open>ZeroDivisionError\<close>.\<close>

definition log_history :: "train_config \<Rightarrow> batch_env \<Rightarrow> train_state \<Rightarrow> exc option \<times> train_state" where
  "log_history cfg env s =
     (if log_interval cfg = 0 then (Some (Exception ''ZeroDivisionError''), s)
      else if (global_step s + 1) mod log_interval cfg = 0
      then then_do (call (log_all env) s) (\<lambda>s. (None, s\<lparr>history := []\<rparr>))
      else (None, s))"

text \<open>Lines 126 to 128: the moving average, then the normalisation, on every step.\<close>

definition update_state :: "net_output \<Rightarrow> train_state \<Rightarrow> exc option \<times> train_state" where
  "update_state out s =
     (case moving_avg (row_weights s) (torch_mean (weights out)) of
        Inl e \<Rightarrow> (Some e, s)
      | Inr v \<Rightarrow> (None, s\<lparr>row_weights := F_normalize v\<rparr>))"


text \<open>Lines 130 to 139: the publish and pull cycle.\<close>

definition sync_state :: "train_config \<Rightarrow> batch_env \<Rightarrow> train_state \<Rightarrow> exc option \<times> train_state" where
  "sync_state cfg env s =
     (if sync_interval cfg = 0 then (Some (Exception ''ZeroDivisionError''), s)
      else if (global_step s + 1) mod sync_interval cfg = 0
      then
        then_do (call (emit env) (s\<lparr>events := events s @ [Emit (row_weights s) True]\<rparr>)) (\<lambda>s.
        case sync env of
          Fails e \<Rightarrow> (Some e, s\<lparr>events := events s @ [Sync]\<rparr>)
        | Gives mg \<Rightarrow>
            (case row0 (W mg) of
               Inl e \<Rightarrow> (Some e, s\<lparr>events := events s @ [Sync], metagraph := mg\<rparr>)
             | Inr r \<Rightarrow>
                 (case col0 (W mg) of
                    Inl e \<Rightarrow>
                      (Some e, s\<lparr>events := events s @ [Sync], metagraph := mg, row_weights := r\<rparr>)
                  | Inr c \<Rightarrow>
                      call (set_priority env)
                        (s\<lparr>events := events s @ [Sync, SetPriority (neurons mg) c],
                           metagraph := mg, row_weights := r\<rparr>))))
      else (None, s))"

text \<open>Lines 141 to 143.\<close>

definition advance :: "batch_env \<Rightarrow> train_state \<Rightarrow> exc option \<times> train_state" where
  "advance env s =
     call (empty_cache env)
       (s\<lparr>local_step := local_step s + 1, global_step := global_step s + 1\<rparr>)"

text \<open>The body of the \<^verbatim>\<open>try\<close> block, lines 94 to 143.\<close>

definition body :: "train_config \<Rightarrow> int \<Rightarrow> batch_env \<Rightarrow> train_state \<Rightarrow> exc option \<times> train_state" where
  "body cfg epoch env s =
     (case forward env of
        Fails e \<Rightarrow> (Some e, s)
      | Gives out \<Rightarrow>
          then_do (call (backward env) (s\<lparr>last_output := Some out\<rparr>)) (\<lambda>s.
          then_do (call (logging env)
                     (s\<lparr>history := history s @ [out],
                        events := events s @ [Info (global_step s) (local_step s) epoch]\<rparr>)) (\<lambda>s.
          then_do (log_history cfg env s) (\<lambda>s.
          then_do (call (tensorboard env) s) (\<lambda>s.
          then_do (update_state out s) (\<lambda>s.
          then_do (sync_state cfg env s) (\<lambda>s.
          advance env s)))))))"

text \<open>
  One pass of the \<^verbatim>\<open>while\<close> loop: \<^verbatim>\<open>except Exception\<close> logs the exception and the loop
  goes on; an exception that is no instance of \<^verbatim>\<open>Exception\<close> leaves the loop.
\<close>

definition step :: "train_config \<Rightarrow> int \<Rightarrow> batch_env \<Rightarrow> train_state \<Rightarrow> exc + train_state" where
  "step cfg epoch env s =
     (case body cfg epoch env s of
        (None, s') \<Rightarrow> Inr s'
      | (Some e, s') \<Rightarrow>
          (case e of
             Exception m \<Rightarrow> Inr (s'\<lparr>events := events s' @ [LogError e]\<rparr>)
           | KeyboardInterrupt \<Rightarrow> Inl e
           | SystemExit c \<Rightarrow> Inl e))"

text \<open>
  \<^verbatim>\<open>while local_step < local_epochs\<close> with \<^verbatim>\<open>local_epochs = 10\<close>. Each pass takes the
  next environment of the list; \<open>None\<close> means that the list ended with the loop still
  running (a pass that raises does not advance \<^verbatim>\<open>local_step\<close>).
\<close>

fun train_loop :: "train_config \<Rightarrow> int \<Rightarrow> batch_env list \<Rightarrow> train_state
    \<Rightarrow> (exc + train_state) option" where
  "train_loop cfg epoch [] s = (if local_step s < 10 then None else Some (Inr s))"
| "train_loop cfg epoch (env # envs) s =
     (if local_step s < 10 then
        (case step cfg epoch env s of
           Inl e \<Rightarrow> Some (Inl e)
         | Inr s' \<Rightarrow> train_loop cfg epoch envs s')
      else Some (Inr s))"

text \<open>
  \<^verbatim>\<open>train(epoch, global_step)\<close>: the sync and the row read before the loop are outside the
  \<^verbatim>\<open>try\<close> block.
\<close>

record epoch_env =
  first_sync :: "chain_state call"
  batches :: "batch_env list"

definition train :: "train_config \<Rightarrow> epoch_env \<Rightarrow> int \<Rightarrow> int \<Rightarrow> event list
    \<Rightarrow> (exc + train_state) option" where
  "train cfg ee epoch gs evs =
     (case first_sync ee of
        Fails e \<Rightarrow> Some (Inl e)
      | Gives mg \<Rightarrow>
          (case row0 (W mg) of
             Inl e \<Rightarrow> Some (Inl e)
           | Inr r \<Rightarrow>
               train_loop cfg epoch (batches ee)
                 \<lparr>row_weights = r, history = [], local_step = 0, global_step = gs,
                  last_output = None, metagraph = mg, events = evs @ [Sync]\<rparr>))"

text \<open>
  The epoch loop of \<^verbatim>\<open>main\<close>, which has no end in the source, over a list of epochs: the
  global step and the calls made are handed from one \<^verbatim>\<open>train\<close> to the next. The
  learning-rate schedule and the saving of the model are the model collaborator's.
\<close>

fun main_epochs :: "train_config \<Rightarrow> epoch_env list \<Rightarrow> int \<Rightarrow> int \<Rightarrow> event list
    \<Rightarrow> (exc + int \<times> event list) option" where
  "main_epochs cfg [] epoch gs evs = Some (Inr (gs, evs))"
| "main_epochs cfg (ee # ees) epoch gs evs =
     (case train cfg ee (epoch + 1) gs evs of
        None \<Rightarrow> None
      | Some (Inl e) \<Rightarrow> Some (Inl e)
      | Some (Inr s) \<Rightarrow> main_epochs cfg ees (epoch + 1) (global_step s) (events s))"

text \<open>
  The global steps at which \<^verbatim>\<open>emit\<close> was called: for each \<open>Emit\<close> of a trace, the
  global step of the last log line before it.
\<close>

fun emit_steps :: "int \<Rightarrow> event list \<Rightarrow> int list" where
  "emit_steps g [] = []"
| "emit_steps g (Info gs ls ep # evs) = emit_steps gs evs"
| "emit_steps g (Emit r b # evs) = g # emit_steps g evs"
| "emit_steps g (Sync # evs) = emit_steps g evs"
| "emit_steps g (SetPriority ns c # evs) = emit_steps g evs"
| "emit_steps g (LogError e # evs) = emit_steps g evs"

text \<open>
  A pass in which no call raises and the sizes agree with \<open>n\<close> peers, and an epoch of
  ten such passes: the runs in which every pass is a local step.
\<close>

definition clean :: "nat \<Rightarrow> batch_env \<Rightarrow> bool" where
  "clean n env =
     ((case forward env of
         Fails e \<Rightarrow> False
       | Gives out \<Rightarrow> weights out \<noteq> [] \<and> (\<forall>r\<in>set (weights out). length r = n))
      \<and> backward env = Gives () \<and> logging env = Gives () \<and> log_all env = Gives ()
      \<and> tensorboard env = Gives () \<and> emit env = Gives ()
      \<and> (case sync env of
            Fails e \<Rightarrow> False
          | Gives mg \<Rightarrow> W mg \<noteq> [] \<and> (\<forall>r\<in>set (W mg). length r = n))
      \<and> set_priority env = Gives () \<and> empty_cache env = Gives ())"

definition clean_epoch :: "nat \<Rightarrow> epoch_env \<Rightarrow> bool" where
  "clean_epoch n ee =
     ((case first_sync ee of
         Fails e \<Rightarrow> False
       | Gives mg \<Rightarrow> W mg \<noteq> [] \<and> (\<forall>r\<in>set (W mg). length r = n))
      \<and> length (batches ee) = 10 \<and> (\<forall>env\<in>set (batches ee). clean n env))"

section \<open>Properties of the supervised workers\<close>

lemma exception_first:
  "received p = 0 \<Longrightarrow> pipe st = [m] \<Longrightarrow>
     exception st p = (m, p\<lparr>received := Suc 0, p_exception := m\<rparr>)"
  by (simp add: exception_def)

lemma exception_again:
  "pipe st = [m] \<Longrightarrow>
     exception st (p\<lparr>received := Suc 0, p_exception := m\<rparr>) =
       (m, p\<lparr>received := Suc 0, p_exception := m\<rparr>)"
  by (simp add: exception_def)

lemma terminate_all_terminated:
  "(n, p, c) \<in> set (terminate_all ps) \<Longrightarrow> terminated p"
  by (auto simp: terminate_all_def)

lemma terminate_all_keys: "map fst (terminate_all ps) = map fst ps"
  by (induction ps) (auto simp: terminate_all_def)

lemma store_keys: "map fst (store n p ps) = map fst ps"
  by (induction ps) (auto simp: store_def)

text \<open>
  C4, as the code has it. A body that raises an instance of \<^verbatim>\<open>Exception\<close> makes
  \<^verbatim>\<open>Process.run\<close> send the pair of the exception and its trace, once, and return
  normally, so the child exits with status 0 (not with a non-zero status). An exception
  outside \<^verbatim>\<open>Exception\<close> is not caught: nothing is sent and the exit status is that of
  the library (1, or the code of the \<^verbatim>\<open>SystemExit\<close>).
\<close>

theorem Process_run_fault_sent_once_exit_zero:
  "Process_run (Raises (Exception m) tb) = ([Some (Exception m, tb)], None)
   \<and> bootstrap_exitcode (snd (Process_run (Raises (Exception m) tb))) = 0
   \<and> Process_run (Raises KeyboardInterrupt tb) = ([], Some KeyboardInterrupt)
   \<and> bootstrap_exitcode (snd (Process_run (Raises KeyboardInterrupt tb))) = 1
   \<and> Process_run (Raises (SystemExit c) tb) = ([], Some (SystemExit c))
   \<and> bootstrap_exitcode (snd (Process_run (Raises (SystemExit c) tb))) = c mod 256"
  by (simp add: Process_run_def bootstrap_exitcode_def)

text \<open>
  C4 as stated fails: a body raising \<^verbatim>\<open>Exception('boom')\<close> leaves the child with exit
  status 0, and a body raising \<^verbatim>\<open>KeyboardInterrupt\<close> sends nothing.
\<close>

theorem Process_run_nonzero_exit_counterexample:
  "\<not> (bootstrap_exitcode (snd (Process_run (Raises (Exception ''boom'') ''trace''))) \<noteq> 0)
   \<and> fst (Process_run (Raises KeyboardInterrupt ''trace'')) = []"
  by (simp add: Process_run_def bootstrap_exitcode_def)

text \<open>
  C10. A child whose body raised an \<^verbatim>\<open>Exception\<close> has ended with exit status 0 and
  the pair in its pipe. When the loop polls it, the fault branch is taken before the
  test \<^verbatim>\<open>exitcode == 0\<close>: every process of the dictionary is terminated, none is
  removed, and \<^verbatim>\<open>ChildProcessError(trace)\<close> is raised.
\<close>

theorem check_fault_before_exit_zero:
  assumes "map_of ps n = Some (p, c)" and "received p = 0" and "tau \<le> t"
  shows "exitcode (status_at (Exits tau (Raises (Exception m) tb)) t) = Some 0
         \<and> check (status_at (Exits tau (Raises (Exception m) tb)) t) n ps =
             Raise (ChildProcessError tb)
               (terminate_all
                  (store n (p\<lparr>received := Suc 0, p_exception := Some (Exception m, tb)\<rparr>) ps))
         \<and> map fst (terminate_all
                  (store n (p\<lparr>received := Suc 0, p_exception := Some (Exception m, tb)\<rparr>) ps))
             = map fst ps
         \<and> (\<forall>(k, q, d) \<in> set (terminate_all
                  (store n (p\<lparr>received := Suc 0, p_exception := Some (Exception m, tb)\<rparr>) ps)).
               terminated q)"
proof -
  define st where "st = status_at (Exits tau (Raises (Exception m) tb)) t"
  define p' where "p' = p\<lparr>received := Suc 0, p_exception := Some (Exception m, tb)\<rparr>"
  have st: "st = \<lparr>alive = False, exitcode = Some 0, pipe = [Some (Exception m, tb)]\<rparr>"
    using assms(3) by (simp add: st_def ended_def Process_run_def bootstrap_exitcode_def)
  have e1: "exception st p = (Some (Exception m, tb), p')"
    using assms(2) by (simp add: exception_first st p'_def)
  have e2: "exception st p' = (Some (Exception m, tb), p')"
    by (simp add: exception_again st p'_def)
  have "check st n ps = Raise (ChildProcessError tb) (terminate_all (store n p' ps))"
    unfolding check_def using assms(1) by (simp add: e1 e2) (simp add: st)
  moreover have "exitcode st = Some 0" by (simp add: st)
  ultimately show ?thesis
    unfolding st_def p'_def
    by (auto simp: terminate_all_keys store_keys dest: terminate_all_terminated)
qed

theorem check_fault_before_exit_zero_witness:
  "exitcode (status_at (Exits 3 (Raises (Exception ''boom'') ''trace'')) 5) = Some 0
   \<and> check (status_at (Exits 3 (Raises (Exception ''boom'') ''trace'')) 5) 1
       [(0, new_process, ''a''), (1, new_process, ''b'')] =
     Raise (ChildProcessError ''trace'')
       [(0, new_process\<lparr>terminated := True\<rparr>, ''a''),
        (1, \<lparr>received = 1, p_exception = Some (Exception ''boom'', ''trace''),
             terminated = True, joined = False\<rparr>, ''b'')]"
  using check_fault_before_exit_zero
    [of "[(0, new_process, ''a''), (1, new_process, ''b'')]" 1 new_process "''b''" 3 5 "''boom''" "''trace''"]
  by (simp add: new_process_def terminate_all_def store_def)

section \<open>Properties of the identity fan-out\<close>

lemma lookup_append: "lookup h a = Some v \<Longrightarrow> lookup (h @ e) a = Some v"
  by (auto simp: lookup_def nth_append split: if_splits)

lemma view_append: "view h c = Some v \<Longrightarrow> view (h @ e) c = Some v"
  by (auto simp: view_def lookup_append split: option.splits obj.splits)

lemma fan_out_iteration:
  assumes "view h cfg = Some (w, x)" "py_int p = Some n" "py_split CHR '':'' key = [c, hk]"
  shows "fan_out h cfg (key # keys) (p # ports) subs =
         fan_out (h @ [Wallet (w\<lparr>name := c, hotkey := hk\<rparr>), Axon (x\<lparr>port := n\<rparr>),
                       Config (length h) (length h + 1)]) cfg keys ports (subs @ [length h + 2])"
  using assms
  by (auto simp: view_def deepcopy_def set_wallet_def set_axon_def lookup_def nth_append
      list_update_append split: option.splits obj.splits if_splits)

lemma fan_out_ok:
  assumes "view h cfg = Some (w, x)" "length ports = length keys"
    "\<forall>i<length keys. py_split CHR '':'' (keys ! i) = [cold i, hot i]"
    "\<forall>i<length keys. py_int (ports ! i) = Some (num i)"
  shows "fan_out h cfg keys ports subs =
     Inr (subs @ map (\<lambda>i. length h + 3 * i + 2) [0..<length keys],
          h @ concat (map (\<lambda>i. [Wallet (w\<lparr>name := cold i, hotkey := hot i\<rparr>),
                                  Axon (x\<lparr>port := num i\<rparr>),
                                  Config (length h + 3 * i) (length h + 3 * i + 1)])
                       [0..<length keys]))"
  using assms
proof (induction keys arbitrary: h ports subs cold hot num)
  case Nil
  then show ?case by simp
next
  case (Cons key keys)
  then obtain p ports' where ports: "ports = p # ports'" by (cases ports) auto
  have k0: "py_split CHR '':'' key = [cold 0, hot 0]" using Cons.prems(3) by auto
  have p0: "py_int p = Some (num 0)" using Cons.prems(4) by (auto simp: ports)
  let ?h = "h @ [Wallet (w\<lparr>name := cold 0, hotkey := hot 0\<rparr>), Axon (x\<lparr>port := num 0\<rparr>),
                       Config (length h) (length h + 1)]"
  have v: "view ?h cfg = Some (w, x)" using Cons.prems(1) by (rule view_append)
  have l: "length ports' = length keys" using Cons.prems(2) by (simp add: ports)
  have ks: "\<forall>i<length keys. py_split CHR '':'' (keys ! i) = [(cold \<circ> Suc) i, (hot \<circ> Suc) i]"
    using Cons.prems(3) by auto
  have ps: "\<forall>i<length keys. py_int (ports' ! i) = Some ((num \<circ> Suc) i)"
    using Cons.prems(4) by (auto simp: ports)
  show ?case
    unfolding ports fan_out_iteration [OF Cons.prems(1) p0 k0]
      Cons.IH [OF v l ks ps]
    apply (simp add: map_upt_Suc del: upt_Suc)
    apply (rule arg_cong [where f = concat])
    apply (rule map_cong [OF refl])
    apply simp
    done
qed

lemma concat3_nth:
  assumes "\<And>j. length (f j) = 3" "i < n" "k < 3"
  shows "concat (map f [0..<n]) ! (3 * i + k) = f i ! k"
  using assms(2)
proof (induction n)
  case 0
  then show ?case by simp
next
  case (Suc n)
  have len: "length (concat (map f [0..<n])) = 3 * n"
    by (induction n) (simp_all add: assms(1))
  show ?case
  proof (cases "i < n")
    case True
    then have "3 * i + k < 3 * n" using assms(3) by arith
    then show ?thesis using Suc.IH [OF True] by (simp add: nth_append len)
  next
    case False
    then have "i = n" using Suc.prems by simp
    then show ?thesis using assms(3) by (simp add: nth_append len)
  qed
qed

lemma concat3_length:
  assumes "\<And>j. length (f j) = 3"
  shows "length (concat (map f [0..<n])) = 3 * n"
  by (induction n) (simp_all add: assms)

lemma view_update_other:
  "a \<notin> footprint h c \<Longrightarrow> view (h[a := v]) c = view h c"
  by (auto simp: view_def footprint_def lookup_def split: option.splits obj.splits if_splits)


lemma footprint_append: "view h c = Some v \<Longrightarrow> footprint (h @ e) c = footprint h c"
  by (auto simp: view_def footprint_def lookup_def nth_append split: option.splits obj.splits if_splits)

lemma footprint_bound: "view h c = Some v \<Longrightarrow> a \<in> footprint h c \<Longrightarrow> a < length h"
  by (auto simp: view_def footprint_def lookup_def split: option.splits obj.splits if_splits)

lemma fan_out_heap:
  fixes h :: heap and w :: wallet and x :: axon
  defines "blk cold hot num \<equiv> (\<lambda>i. [Wallet (w\<lparr>name := cold i, hotkey := hot i\<rparr>),
                                  Axon (x\<lparr>port := num i\<rparr>),
                                  Config (length h + 3 * i) (length h + 3 * i + 1)])"
  assumes "i < n"
  shows "view (h @ concat (map (blk cold hot num) [0..<n])) (length h + 3 * i + 2)
           = Some (w\<lparr>name := cold i, hotkey := hot i\<rparr>, x\<lparr>port := num i\<rparr>)"
    and "footprint (h @ concat (map (blk cold hot num) [0..<n])) (length h + 3 * i + 2)
           = {length h + 3 * i + 2, length h + 3 * i, length h + 3 * i + 1}"
proof -
  let ?f = "blk cold hot num"
  let ?H = "h @ concat (map ?f [0..<n])"
  have l3: "\<And>j. length (?f j) = 3" by (simp add: blk_def)
  have len: "length ?H = length h + 3 * n" by (simp add: concat3_length [OF l3])
  have nth: "?H ! (length h + (3 * i + k)) = ?f i ! k" if "k < 3" for k
    using concat3_nth [OF l3 assms(2) that] by (simp add: nth_append)
  have lk: "lookup ?H (length h + (3 * i + k)) = Some (?f i ! k)" if "k < 3" for k
  proof -
    have "length h + (3 * i + k) < length ?H"
      using that assms(2) unfolding len by arith
    then show ?thesis unfolding lookup_def nth [OF that] by (simp only: if_True)
  qed
  have f0: "?f i ! 0 = Wallet (w\<lparr>name := cold i, hotkey := hot i\<rparr>)"
    and f1: "?f i ! 1 = Axon (x\<lparr>port := num i\<rparr>)"
    and f2: "?f i ! 2 = Config (length h + 3 * i) (length h + 3 * i + 1)"
    by (simp_all add: blk_def)
  have a: "lookup ?H (length h + 3 * i + 2) = Some (Config (length h + 3 * i) (length h + 3 * i + 1))"
    using lk [of 2] unfolding f2 by (simp only: add.assoc)
  have b: "lookup ?H (length h + 3 * i) = Some (Wallet (w\<lparr>name := cold i, hotkey := hot i\<rparr>))"
    using lk [of 0] unfolding f0 by (simp only: add_0_right)
  have c: "lookup ?H (length h + 3 * i + 1) = Some (Axon (x\<lparr>port := num i\<rparr>))"
    using lk [of 1] unfolding f1 by (simp only: add.assoc)
  show "view ?H (length h + 3 * i + 2)
           = Some (w\<lparr>name := cold i, hotkey := hot i\<rparr>, x\<lparr>port := num i\<rparr>)"
    by (simp only: view_def a b c option.case obj.case)
  show "footprint ?H (length h + 3 * i + 2)
           = {length h + 3 * i + 2, length h + 3 * i, length h + 3 * i + 1}"
    by (simp only: footprint_def a option.case obj.case)
qed

text \<open>
  C8. For \<open>N\<close> keys of the form \<^verbatim>\<open>cold:hot\<close> and \<open>N\<close> ports that are integer literals,
  the result has \<open>N\<close> configurations in input order, the \<open>i\<close>-th with the \<open>i\<close>-th coldkey,
  hotkey and port and otherwise equal to the original, which itself is unchanged. Each
  is a deep copy: overwriting any object of one configuration changes neither another
  configuration nor the original, and overwriting an object of the original changes none
  of the copies.
\<close>

theorem create_shared_subconfigs_fan_out:
  assumes "view h cfg = Some (w, x)" and "shared_keys w = Some ks" and "shared_ports x = Some ps"
    and "length (py_split CHR '','' ps) = length (py_split CHR '','' ks)"
    and "\<forall>i<length (py_split CHR '','' ks).
           py_split CHR '':'' (py_split CHR '','' ks ! i) = [cold i, hot i]"
    and "\<forall>i<length (py_split CHR '','' ks). py_int (py_split CHR '','' ps ! i) = Some (num i)"
  shows "\<exists>subs h'. create_shared_subconfigs h cfg = Inr (subs, h')
           \<and> length subs = length (py_split CHR '','' ks)
           \<and> (\<forall>i<length subs. view h' (subs ! i)
                  = Some (w\<lparr>name := cold i, hotkey := hot i\<rparr>, x\<lparr>port := num i\<rparr>))
           \<and> view h' cfg = Some (w, x)
           \<and> (\<forall>i<length subs. \<forall>a\<in>footprint h' (subs ! i). \<forall>v.
                  view (h'[a := v]) cfg = view h' cfg
                  \<and> (\<forall>j<length subs. j \<noteq> i \<longrightarrow> view (h'[a := v]) (subs ! j) = view h' (subs ! j)))
           \<and> (\<forall>a\<in>footprint h' cfg. \<forall>v. \<forall>j<length subs.
                  view (h'[a := v]) (subs ! j) = view h' (subs ! j))"
proof -
  let ?keys = "py_split CHR '','' ks" and ?ports = "py_split CHR '','' ps"
  define n where "n = length ?keys"
  define H where "H = h @ concat (map (\<lambda>i. [Wallet (w\<lparr>name := cold i, hotkey := hot i\<rparr>),
                 Axon (x\<lparr>port := num i\<rparr>),
                 Config (length h + 3 * i) (length h + 3 * i + 1)]) [0..<n])"
  define subs where "subs = map (\<lambda>i. length h + 3 * i + 2) [0..<n]"
  have run: "create_shared_subconfigs h cfg = fan_out h cfg ?keys ?ports []"
    using assms(1,2,3)
    by (auto simp: create_shared_subconfigs_def view_def split: option.splits obj.splits)
  have res: "create_shared_subconfigs h cfg = Inr (subs, H)"
    unfolding run subs_def H_def n_def
    using fan_out_ok [OF assms(1) assms(4) assms(5) assms(6), of "[]"] by simp
  have len: "length subs = n" by (simp add: subs_def)
  have sub: "subs ! i = length h + 3 * i + 2" if "i < n" for i
    using that by (simp add: subs_def)
  have vw: "view H (subs ! i) = Some (w\<lparr>name := cold i, hotkey := hot i\<rparr>, x\<lparr>port := num i\<rparr>)"
    if "i < n" for i
    unfolding sub [OF that] H_def using fan_out_heap(1) [OF that] .
  have fp: "footprint H (subs ! i) = {length h + 3 * i + 2, length h + 3 * i, length h + 3 * i + 1}"
    if "i < n" for i
    unfolding sub [OF that] H_def using fan_out_heap(2) [OF that] .
  have vc: "view H cfg = Some (w, x)" unfolding H_def using assms(1) by (rule view_append)
  have fc: "footprint H cfg = footprint h cfg" unfolding H_def using assms(1) by (rule footprint_append)
  have low: "a < length h" if "a \<in> footprint H cfg" for a
    using that footprint_bound [OF assms(1)] unfolding fc by blast
  have ind1: "view (H[a := v]) cfg = view H cfg" if "i < n" "a \<in> footprint H (subs ! i)" for i a v
  proof (rule view_update_other)
    show "a \<notin> footprint H cfg" using that low [of a] by (auto simp: fp)
  qed
  have ind2: "view (H[a := v]) (subs ! j) = view H (subs ! j)"
    if "i < n" "a \<in> footprint H (subs ! i)" "j < n" "j \<noteq> i" for i j a v
  proof (rule view_update_other)
    show "a \<notin> footprint H (subs ! j)" using that by (auto simp: fp)
  qed
  have ind3: "view (H[a := v]) (subs ! j) = view H (subs ! j)"
    if "a \<in> footprint H cfg" "j < n" for j a v
  proof (rule view_update_other)
    show "a \<notin> footprint H (subs ! j)" using that low [of a] by (auto simp: fp)
  qed
  show ?thesis
    apply (rule exI [where x = subs], rule exI [where x = H])
    apply (intro conjI)
    subgoal by (rule res)
    subgoal by (simp add: len n_def)
    subgoal using vw by (simp only: len) blast
    subgoal by (rule vc)
    subgoal using ind1 ind2 by (simp only: len) blast
    subgoal using ind3 by (simp only: len) blast
    done
qed


lemma py_split_no_sep: "sep \<notin> set s \<Longrightarrow> py_split sep s = [s]"
  by (induction s) auto

lemma fan_out_not_two:
  assumes "\<And>c hk. py_split CHR '':'' key \<noteq> [c, hk]"
  shows "fan_out h cfg (key # keys) (p # ports) subs = Inl ValueError"
  using assms by (auto split: option.splits list.splits)

lemma fan_out_malformed:
  assumes "view h cfg = Some (w, x)" "i < length keys" "i < length ports"
    "CHR '':'' \<notin> set (keys ! i)"
  shows "fan_out h cfg keys ports subs = Inl ValueError"
  using assms
proof (induction keys arbitrary: h ports subs i)
  case Nil
  then show ?case by simp
next
  case (Cons key keys)
  then obtain p ports' where ports: "ports = p # ports'" by (cases ports) auto
  show ?case
  proof (cases "py_int p")
    case None
    then show ?thesis by (simp add: ports)
  next
    case (Some n)
    show ?thesis
    proof (cases "\<exists>c hk. py_split CHR '':'' key = [c, hk]")
      case False
      then show ?thesis unfolding ports by (intro fan_out_not_two) auto
    next
      case True
      then obtain c hk where two: "py_split CHR '':'' key = [c, hk]" by blast
      have "i \<noteq> 0"
      proof
        assume "i = 0"
        with Cons.prems(4) have "py_split CHR '':'' key = [key]" by (simp add: py_split_no_sep)
        with two show False by simp
      qed
      then obtain j where j: "i = Suc j" by (cases i) auto
      have v: "view (h @ [Wallet (w\<lparr>name := c, hotkey := hk\<rparr>), Axon (x\<lparr>port := n\<rparr>),
                       Config (length h) (length h + 1)]) cfg = Some (w, x)"
        using Cons.prems(1) by (rule view_append)
      show ?thesis
        unfolding ports fan_out_iteration [OF Cons.prems(1) Some two]
        using Cons.prems(2,3,4) by (intro Cons.IH [OF v, of j]) (auto simp: j ports)
    qed
  qed
qed

lemma fan_out_zip:
  "fan_out h cfg keys ports subs =
   fan_out h cfg (take (min (length keys) (length ports)) keys)
                 (take (min (length keys) (length ports)) ports) subs"
  by (induction h cfg keys ports subs rule: fan_out.induct)
     (auto split: option.splits list.splits sum.splits)

text \<open>
  C2, as the code has it. With \<^verbatim>\<open>shared_keys\<close> and \<^verbatim>\<open>shared_ports\<close> present, a key entry
  without \<^verbatim>\<open>:\<close> at a position that both lists have makes \<open>create_shared_subconfigs\<close>
  raise \<^verbatim>\<open>ValueError\<close>; the raise happens in \<^verbatim>\<open>__init__\<close>, so no neuron exists whose
  \<^verbatim>\<open>run\<close> could start a process. The lengths of the two lists are not compared: the
  result is that of the two lists cut to the shorter length.
\<close>

theorem create_shared_subconfigs_malformed_key:
  assumes "view h cfg = Some (w, x)" and "shared_keys w = Some ks" and "shared_ports x = Some ps"
  shows "(\<forall>i. i < length (py_split CHR '','' ks) \<and> i < length (py_split CHR '','' ps)
              \<and> CHR '':'' \<notin> set (py_split CHR '','' ks ! i)
            \<longrightarrow> create_shared_subconfigs h cfg = Inl ValueError
                \<and> neuron_init h cfg = Inl ValueError)
         \<and> create_shared_subconfigs h cfg =
             fan_out h cfg
               (take (min (length (py_split CHR '','' ks)) (length (py_split CHR '','' ps)))
                  (py_split CHR '','' ks))
               (take (min (length (py_split CHR '','' ks)) (length (py_split CHR '','' ps)))
                  (py_split CHR '','' ps)) []"
proof -
  have run: "create_shared_subconfigs h cfg =
      fan_out h cfg (py_split CHR '','' ks) (py_split CHR '','' ps) []"
    using assms(1,2,3)
    by (auto simp: create_shared_subconfigs_def view_def split: option.splits obj.splits)
  have "create_shared_subconfigs h cfg = Inl ValueError \<and> neuron_init h cfg = Inl ValueError"
    if "i < length (py_split CHR '','' ks)" "i < length (py_split CHR '','' ps)"
      "CHR '':'' \<notin> set (py_split CHR '','' ks ! i)" for i
  proof -
    have "create_shared_subconfigs h cfg = Inl ValueError"
      unfolding run using assms(1) that by (rule fan_out_malformed)
    then show ?thesis by (simp add: neuron_init_def)
  qed
  moreover have "create_shared_subconfigs h cfg =
             fan_out h cfg
               (take (min (length (py_split CHR '','' ks)) (length (py_split CHR '','' ps)))
                  (py_split CHR '','' ks))
               (take (min (length (py_split CHR '','' ks)) (length (py_split CHR '','' ps)))
                  (py_split CHR '','' ps)) []"
    unfolding run by (rule fan_out_zip)
  ultimately show ?thesis by blast
qed

text \<open>
  The keys \<^verbatim>\<open>A:a,B\<close> with the ports \<^verbatim>\<open>9000,9001\<close>: the second key has no separator.
\<close>

theorem create_shared_subconfigs_malformed_key_witness:
  "view [Wallet \<lparr>name = ''default'', hotkey = ''default'', shared_keys = Some ''A:a,B''\<rparr>,
         Axon \<lparr>port = 8091, shared_ports = Some ''9000,9001''\<rparr>, Config 0 1] 2
     = Some (\<lparr>name = ''default'', hotkey = ''default'', shared_keys = Some ''A:a,B''\<rparr>,
             \<lparr>port = 8091, shared_ports = Some ''9000,9001''\<rparr>)
   \<and> py_split CHR '','' ''A:a,B'' ! 1 = ''B''
   \<and> neuron_init [Wallet \<lparr>name = ''default'', hotkey = ''default'', shared_keys = Some ''A:a,B''\<rparr>,
         Axon \<lparr>port = 8091, shared_ports = Some ''9000,9001''\<rparr>, Config 0 1] 2
     = Inl ValueError"
  using create_shared_subconfigs_malformed_key
    [of "[Wallet \<lparr>name = ''default'', hotkey = ''default'', shared_keys = Some ''A:a,B''\<rparr>,
         Axon \<lparr>port = 8091, shared_ports = Some ''9000,9001''\<rparr>, Config 0 1]" 2
        "\<lparr>name = ''default'', hotkey = ''default'', shared_keys = Some ''A:a,B''\<rparr>"
        "\<lparr>port = 8091, shared_ports = Some ''9000,9001''\<rparr>" "''A:a,B''" "''9000,9001''",
     THEN conjunct1, THEN spec, of 1]
  by (simp add: view_def lookup_def)

text \<open>
  C2 as stated fails: two keys, the second one without separator, and one port. The
  lists have unequal lengths and a key entry lacks \<^verbatim>\<open>:\<close>, yet the function returns one
  sub-configuration and raises nothing.
\<close>

theorem create_shared_subconfigs_length_counterexample:
  "create_shared_subconfigs
     [Wallet \<lparr>name = ''default'', hotkey = ''default'', shared_keys = Some ''A:a,B''\<rparr>,
      Axon \<lparr>port = 8091, shared_ports = Some ''9000''\<rparr>, Config 0 1] 2
   = Inr ([5],
      [Wallet \<lparr>name = ''default'', hotkey = ''default'', shared_keys = Some ''A:a,B''\<rparr>,
       Axon \<lparr>port = 8091, shared_ports = Some ''9000''\<rparr>, Config 0 1,
       Wallet \<lparr>name = ''A'', hotkey = ''a'', shared_keys = Some ''A:a,B''\<rparr>,
       Axon \<lparr>port = 9000, shared_ports = Some ''9000''\<rparr>, Config 3 4])"
  by code_simp

text \<open>
  The keys \<^verbatim>\<open>A:a,B:b\<close> with the ports \<^verbatim>\<open>9000,9001\<close>.
\<close>

theorem create_shared_subconfigs_fan_out_witness:
  "\<exists>subs h'. create_shared_subconfigs
       [Wallet \<lparr>name = ''default'', hotkey = ''default'', shared_keys = Some ''A:a,B:b''\<rparr>,
        Axon \<lparr>port = 8091, shared_ports = Some ''9000,9001''\<rparr>, Config 0 1] 2 = Inr (subs, h')
     \<and> length subs = 2
     \<and> view h' (subs ! 0) = Some (\<lparr>name = ''A'', hotkey = ''a'', shared_keys = Some ''A:a,B:b''\<rparr>,
                                   \<lparr>port = 9000, shared_ports = Some ''9000,9001''\<rparr>)
     \<and> view h' (subs ! 1) = Some (\<lparr>name = ''B'', hotkey = ''b'', shared_keys = Some ''A:a,B:b''\<rparr>,
                                   \<lparr>port = 9001, shared_ports = Some ''9000,9001''\<rparr>)"
proof -
  let ?w = "\<lparr>name = ''default'', hotkey = ''default'', shared_keys = Some ''A:a,B:b''\<rparr>"
  let ?x = "\<lparr>port = 8091, shared_ports = Some ''9000,9001''\<rparr>"
  let ?h = "[Wallet ?w, Axon ?x, Config 0 1]"
  let ?cold = "\<lambda>i::nat. if i = 0 then ''A'' else ''B''"
  let ?hot = "\<lambda>i::nat. if i = 0 then ''a'' else ''b''"
  let ?num = "\<lambda>i::nat. if i = 0 then 9000 else (9001::int)"
  have a1: "view ?h 2 = Some (?w, ?x)" by (simp add: view_def lookup_def)
  have a2: "shared_keys ?w = Some ''A:a,B:b''" and a3: "shared_ports ?x = Some ''9000,9001''"
    by simp_all
  have a4: "length (py_split CHR '','' ''9000,9001'') = length (py_split CHR '','' ''A:a,B:b'')"
    by simp
  have a5: "\<forall>i<length (py_split CHR '','' ''A:a,B:b'').
           py_split CHR '':'' (py_split CHR '','' ''A:a,B:b'' ! i) = [?cold i, ?hot i]"
    by (simp add: less_Suc_eq)
  have a6: "\<forall>i<length (py_split CHR '','' ''A:a,B:b'').
           py_int (py_split CHR '','' ''9000,9001'' ! i) = Some (?num i)"
    by (simp add: less_Suc_eq py_int_def strip_def is_space_def unsigned_def digit_def)
  from create_shared_subconfigs_fan_out [OF a1 a2 a3 a4 a5 a6]
  obtain subs h' where r: "create_shared_subconfigs ?h 2 = Inr (subs, h')"
    "length subs = length (py_split CHR '','' ''A:a,B:b'')"
    "\<forall>i<length subs. view h' (subs ! i)
        = Some (?w\<lparr>name := ?cold i, hotkey := ?hot i\<rparr>, ?x\<lparr>port := ?num i\<rparr>)"
    by blast
  have l: "length subs = 2" using r(2) by simp
  have "view h' (subs ! 0) = Some (?w\<lparr>name := ?cold 0, hotkey := ?hot 0\<rparr>, ?x\<lparr>port := ?num 0\<rparr>)"
    using r(3) l by simp
  moreover have "view h' (subs ! 1) = Some (?w\<lparr>name := ?cold 1, hotkey := ?hot 1\<rparr>, ?x\<lparr>port := ?num 1\<rparr>)"
    using r(3) l by simp
  ultimately show ?thesis using r(1) l by simp
qed

section \<open>Properties of the training loop\<close>









lemma then_do_simps:
  "then_do (None, s) f = f s"
  "then_do (Some e, s) f = (Some e, s)"
  by (simp_all add: then_do_def)

lemma call_simps:
  "call (Fails e) s = (Some e, s)"
  "call (Gives v) s = (None, s)"
  by (simp_all add: call_def)

text \<open>
  C7. On a publishing step (\<^verbatim>\<open>(global_step + 1) % sync_interval == 0\<close>) the calls are, in
  this order: \<^verbatim>\<open>emit\<close> of the current row with \<^verbatim>\<open>wait_for_inclusion = True\<close>, then
  \<^verbatim>\<open>sync\<close>, then the row is set to row 0 of the pulled matrix, then \<^verbatim>\<open>set_priority\<close> gets
  column 0 of the pulled matrix. The other three parts show the order through the
  failures: when \<^verbatim>\<open>emit\<close> raises nothing is pulled, when \<^verbatim>\<open>sync\<close> raises the row is
  not reset, and when \<^verbatim>\<open>set_priority\<close> raises the row is already the pulled one.
\<close>

theorem sync_state_order:
  assumes "sync_interval cfg \<noteq> 0" and "(global_step s + 1) mod sync_interval cfg = 0"
  shows "(emit env = Gives u \<and> sync env = Gives mg \<and> W mg = r # rs
            \<and> (\<forall>x\<in>set (W mg). x \<noteq> []) \<and> set_priority env = Gives u' \<longrightarrow>
          sync_state cfg env s =
            (None, s\<lparr>events := events s @ [Emit (row_weights s) True, Sync,
                                            SetPriority (neurons mg) (map hd (W mg))],
                     metagraph := mg, row_weights := r\<rparr>))
       \<and> (emit env = Fails e \<longrightarrow>
          sync_state cfg env s = (Some e, s\<lparr>events := events s @ [Emit (row_weights s) True]\<rparr>))
       \<and> (emit env = Gives u \<and> sync env = Fails e \<longrightarrow>
          sync_state cfg env s =
            (Some e, s\<lparr>events := events s @ [Emit (row_weights s) True, Sync]\<rparr>))
       \<and> (emit env = Gives u \<and> sync env = Gives mg \<and> W mg = r # rs
            \<and> (\<forall>x\<in>set (W mg). x \<noteq> []) \<and> set_priority env = Fails e \<longrightarrow>
          sync_state cfg env s =
            (Some e, s\<lparr>events := events s @ [Emit (row_weights s) True, Sync,
                                              SetPriority (neurons mg) (map hd (W mg))],
                       metagraph := mg, row_weights := r\<rparr>))"
  using assms by (auto simp: then_do_simps call_simps sync_state_def row0_def col0_def)


text \<open>
  Global step 99 with \<^verbatim>\<open>sync_interval = 100\<close>.
\<close>

theorem sync_state_order_witness:
  "sync_state \<lparr>sync_interval = 100, log_interval = 10\<rparr>
     \<lparr>forward = Fails KeyboardInterrupt, backward = Gives (), logging = Gives (),
      log_all = Gives (), tensorboard = Gives (), emit = Gives (),
      sync = Gives \<lparr>neurons = [7, 8], W = [[1 / 4, 3 / 4], [1, 0]]\<rparr>,
      set_priority = Gives (), empty_cache = Gives ()\<rparr>
     \<lparr>row_weights = [1 / 2, 1 / 2], history = [], local_step = 9, global_step = 99,
      last_output = None, metagraph = \<lparr>neurons = [7, 8], W = [[0, 0], [0, 0]]\<rparr>,
      events = []\<rparr>
   = (None,
      \<lparr>row_weights = [1 / 4, 3 / 4], history = [], local_step = 9, global_step = 99,
       last_output = None, metagraph = \<lparr>neurons = [7, 8], W = [[1 / 4, 3 / 4], [1, 0]]\<rparr>,
       events = [Emit [1 / 2, 1 / 2] True, Sync, SetPriority [7, 8] [1 / 4, 1]]\<rparr>)"
  using sync_state_order
    [of "\<lparr>sync_interval = 100, log_interval = 10\<rparr>"
        "\<lparr>row_weights = [1 / 2, 1 / 2], history = [], local_step = 9, global_step = 99,
          last_output = None, metagraph = \<lparr>neurons = [7, 8], W = [[0, 0], [0, 0]]\<rparr>,
          events = []\<rparr>"
        "\<lparr>forward = Fails KeyboardInterrupt, backward = Gives (), logging = Gives (),
          log_all = Gives (), tensorboard = Gives (), emit = Gives (),
          sync = Gives \<lparr>neurons = [7, 8], W = [[1 / 4, 3 / 4], [1, 0]]\<rparr>,
          set_priority = Gives (), empty_cache = Gives ()\<rparr>"
        "()" "\<lparr>neurons = [7, 8], W = [[1 / 4, 3 / 4], [1, 0]]\<rparr>" "[1 / 4, 3 / 4]" "[[1, 0]]" "()",
     THEN conjunct1]
  by simp

lemma log_history_counters:
  "log_history cfg env s = (r, s') \<Longrightarrow>
     local_step s' = local_step s \<and> global_step s' = global_step s"
  by (auto simp: then_do_simps call_simps log_history_def call_def then_do_def split: if_splits call.splits)

lemma update_state_counters:
  "update_state out s = (r, s') \<Longrightarrow>
     local_step s' = local_step s \<and> global_step s' = global_step s"
  by (auto simp: update_state_def split: sum.splits)

lemma sync_state_counters:
  "sync_state cfg env s = (r, s') \<Longrightarrow>
     local_step s' = local_step s \<and> global_step s' = global_step s"
  by (auto simp: then_do_simps call_simps sync_state_def call_def then_do_def split: if_splits call.splits sum.splits)

lemma step_not_Exception: "step cfg epoch env s = Inl e \<Longrightarrow> e \<noteq> Exception m"
  by (auto simp: step_def split: prod.splits option.splits exc.splits)

lemma train_loop_not_Exception:
  "train_loop cfg epoch envs s = Some (Inl e) \<Longrightarrow> e \<noteq> Exception m"
proof (induction envs arbitrary: s)
  case Nil
  then show ?case by (simp split: if_splits)
next
  case (Cons env envs)
  show ?case
  proof (cases "step cfg epoch env s")
    case (Inl x)
    with Cons.prems have "x = e" by (simp split: if_splits)
    with Inl show ?thesis by (auto dest: step_not_Exception)
  next
    case (Inr s')
    with Cons.prems have "train_loop cfg epoch envs s' = Some (Inl e)"
      by (simp split: if_splits)
    then show ?thesis by (rule Cons.IH)
  qed
qed

text \<open>
  C3, as the code has it. The \<^verbatim>\<open>try\<close> block holds the whole loop body, the publish and
  pull step included. So no \<^verbatim>\<open>Exception\<close> leaves the \<^verbatim>\<open>while\<close> loop, whichever call
  raised it; in particular an \<^verbatim>\<open>Exception\<close> raised in the publish and pull step is logged
  and the loop goes on with the next pass, the step counters unchanged. What propagates
  is a failure of the \<^verbatim>\<open>sync\<close> that \<^verbatim>\<open>train\<close> makes before the loop.
\<close>

theorem train_loop_catches:
  "(\<forall>e m. train_loop cfg epoch envs s = Some (Inl e) \<longrightarrow> e \<noteq> Exception m)
   \<and> (forward env = Gives out \<and> backward env = Gives u1 \<and> logging env = Gives u2
        \<and> log_history cfg env
             (s\<lparr>last_output := Some out, history := history s @ [out],
                events := events s @ [Info (global_step s) (local_step s) epoch]\<rparr>) = (None, s1)
        \<and> tensorboard env = Gives u3
        \<and> update_state out s1 = (None, s2)
        \<and> sync_state cfg env s2 = (Some (Exception m), s3)
        \<and> local_step s < 10 \<longrightarrow>
       train_loop cfg epoch (env # rest) s =
         train_loop cfg epoch rest (s3\<lparr>events := events s3 @ [LogError (Exception m)]\<rparr>)
       \<and> local_step s3 = local_step s \<and> global_step s3 = global_step s)
   \<and> (first_sync ee = Fails e \<longrightarrow> train cfg ee epoch gs evs = Some (Inl e))"
proof (intro conjI allI impI)
  fix e m assume "train_loop cfg epoch envs s = Some (Inl e)"
  then show "e \<noteq> Exception m" by (rule train_loop_not_Exception)
next
  assume a: "forward env = Gives out \<and> backward env = Gives u1 \<and> logging env = Gives u2
        \<and> log_history cfg env
             (s\<lparr>last_output := Some out, history := history s @ [out],
                events := events s @ [Info (global_step s) (local_step s) epoch]\<rparr>) = (None, s1)
        \<and> tensorboard env = Gives u3
        \<and> update_state out s1 = (None, s2)
        \<and> sync_state cfg env s2 = (Some (Exception m), s3)
        \<and> local_step s < 10"
  then have b: "body cfg epoch env s = (Some (Exception m), s3)"
    by (simp add: then_do_simps call_simps body_def)
  then have "step cfg epoch env s = Inr (s3\<lparr>events := events s3 @ [LogError (Exception m)]\<rparr>)"
    by (simp add: step_def)
  with a show "train_loop cfg epoch (env # rest) s =
         train_loop cfg epoch rest (s3\<lparr>events := events s3 @ [LogError (Exception m)]\<rparr>)"
    by simp
  from a have "local_step s1 = local_step s \<and> global_step s1 = global_step s"
    by (auto dest!: log_history_counters)
  moreover from a have "local_step s2 = local_step s1 \<and> global_step s2 = global_step s1"
    by (auto dest!: update_state_counters)
  moreover from a have "local_step s3 = local_step s2 \<and> global_step s3 = global_step s2"
    by (auto dest!: sync_state_counters)
  ultimately show "local_step s3 = local_step s" and "global_step s3 = global_step s" by simp_all
next
  assume "first_sync ee = Fails e"
  then show "train cfg ee epoch gs evs = Some (Inl e)" by (simp add: train_def)
qed


text \<open>
  A pass at global step 99 in which \<^verbatim>\<open>emit\<close> raises, and a \<^verbatim>\<open>train\<close> whose first
  \<^verbatim>\<open>sync\<close> raises.
\<close>

theorem train_loop_catches_witness:
  "train_loop \<lparr>sync_interval = 100, log_interval = 10\<rparr> 0
     [\<lparr>forward = Gives \<lparr>weights = [[1 / 2, 1 / 2]], local_target_loss = 2\<rparr>,
       backward = Gives (), logging = Gives (), log_all = Gives (), tensorboard = Gives (),
       emit = Fails (Exception ''emit failed''),
       sync = Gives \<lparr>neurons = [7, 8], W = [[1 / 4, 3 / 4], [1, 0]]\<rparr>,
       set_priority = Gives (), empty_cache = Gives ()\<rparr>]
     \<lparr>row_weights = [1 / 2, 1 / 2], history = [], local_step = 9, global_step = 99,
      last_output = None, metagraph = \<lparr>neurons = [7, 8], W = [[0, 0], [0, 0]]\<rparr>,
      events = []\<rparr>
   = train_loop \<lparr>sync_interval = 100, log_interval = 10\<rparr> 0 []
     \<lparr>row_weights = [1 / 2, 1 / 2], history = [], local_step = 9, global_step = 99,
      last_output = Some \<lparr>weights = [[1 / 2, 1 / 2]], local_target_loss = 2\<rparr>,
      metagraph = \<lparr>neurons = [7, 8], W = [[0, 0], [0, 0]]\<rparr>,
      events = [Info 99 9 0, Emit [1 / 2, 1 / 2] True, LogError (Exception ''emit failed'')]\<rparr>
   \<and> train \<lparr>sync_interval = 100, log_interval = 10\<rparr>
       \<lparr>first_sync = Fails (Exception ''sync failed''), batches = []\<rparr> 0 0 []
     = Some (Inl (Exception ''sync failed''))"
proof -
  let ?cfg = "\<lparr>sync_interval = 100, log_interval = 10\<rparr>"
  let ?out = "\<lparr>weights = [[1 / 2, 1 / 2]], local_target_loss = 2\<rparr>"
  let ?env = "\<lparr>forward = Gives ?out,
       backward = Gives (), logging = Gives (), log_all = Gives (), tensorboard = Gives (),
       emit = Fails (Exception ''emit failed''),
       sync = Gives \<lparr>neurons = [7, 8], W = [[1 / 4, 3 / 4], [1, 0]]\<rparr>,
       set_priority = Gives (), empty_cache = Gives ()\<rparr>"
  let ?s = "\<lparr>row_weights = [1 / 2, 1 / 2], history = [], local_step = 9, global_step = 99,
      last_output = None, metagraph = \<lparr>neurons = [7, 8], W = [[0, 0], [0, 0]]\<rparr>,
      events = []\<rparr>"
  let ?s1 = "?s\<lparr>last_output := Some ?out, events := [Info 99 9 0]\<rparr>"
  let ?s3 = "?s1\<lparr>events := [Info 99 9 0, Emit [1 / 2, 1 / 2] True]\<rparr>"
  have mx: "max (1 :: real) (1 / 10 ^ 12) = 1" by simp
  have h1: "log_history ?cfg ?env
             (?s\<lparr>last_output := Some ?out, history := history ?s @ [?out],
                events := events ?s @ [Info (global_step ?s) (local_step ?s) 0]\<rparr>) = (None, ?s1)"
    by (simp add: then_do_simps call_simps log_history_def)
  have h2: "update_state ?out ?s1 = (None, ?s1)"
    by (simp add: update_state_def moving_avg_def torch_mean_def F_normalize_def mx)
  have h3: "sync_state ?cfg ?env ?s1 = (Some (Exception ''emit failed''), ?s3)"
    by (simp add: then_do_simps call_simps sync_state_def)
  have "train_loop ?cfg 0 (?env # []) ?s =
         train_loop ?cfg 0 [] (?s3\<lparr>events := events ?s3 @ [LogError (Exception ''emit failed'')]\<rparr>)"
    using train_loop_catches [of ?cfg 0 "[]" ?s ?env ?out "()" "()" ?s1 "()" ?s1 "''emit failed''" ?s3 "[]",
        THEN conjunct2, THEN conjunct1] h1 h2 h3
    by simp
  moreover have "train ?cfg \<lparr>first_sync = Fails (Exception ''sync failed''), batches = []\<rparr> 0 0 []
     = Some (Inl (Exception ''sync failed''))"
    using train_loop_catches [of ?cfg 0 "[]" ?s ?env ?out "()" "()" ?s1 "()" ?s1 "''emit failed''" ?s3 "[]"
        "\<lparr>first_sync = Fails (Exception ''sync failed''), batches = []\<rparr>" "Exception ''sync failed''" 0 "[]",
        THEN conjunct2, THEN conjunct2]
    by simp
  ultimately show ?thesis by simp
qed

text \<open>
  C3 as stated fails: \<^verbatim>\<open>emit\<close> raises on the tenth pass of an epoch, at global step 99;
  the exception is logged, the next pass publishes, and the loop ends normally.
\<close>

theorem train_loop_emit_failure_counterexample:
  "train_loop \<lparr>sync_interval = 100, log_interval = 10\<rparr> 0
     [\<lparr>forward = Gives \<lparr>weights = [[1 / 2, 1 / 2]], local_target_loss = 2\<rparr>,
       backward = Gives (), logging = Gives (), log_all = Gives (), tensorboard = Gives (),
       emit = Fails (Exception ''emit failed''),
       sync = Gives \<lparr>neurons = [7, 8], W = [[1 / 4, 3 / 4], [1, 0]]\<rparr>,
       set_priority = Gives (), empty_cache = Gives ()\<rparr>,
      \<lparr>forward = Gives \<lparr>weights = [[1 / 2, 1 / 2]], local_target_loss = 2\<rparr>,
       backward = Gives (), logging = Gives (), log_all = Gives (), tensorboard = Gives (),
       emit = Gives (),
       sync = Gives \<lparr>neurons = [7, 8], W = [[1 / 4, 3 / 4], [1, 0]]\<rparr>,
       set_priority = Gives (), empty_cache = Gives ()\<rparr>]
     \<lparr>row_weights = [1 / 2, 1 / 2], history = [], local_step = 9, global_step = 99,
      last_output = None, metagraph = \<lparr>neurons = [7, 8], W = [[0, 0], [0, 0]]\<rparr>,
      events = []\<rparr>
   = Some (Inr
     \<lparr>row_weights = [1 / 4, 3 / 4], history = [], local_step = 10, global_step = 100,
      last_output = Some \<lparr>weights = [[1 / 2, 1 / 2]], local_target_loss = 2\<rparr>,
      metagraph = \<lparr>neurons = [7, 8], W = [[1 / 4, 3 / 4], [1, 0]]\<rparr>,
      events = [Info 99 9 0, Emit [1 / 2, 1 / 2] True, LogError (Exception ''emit failed''),
                Info 99 9 0, Emit [1 / 2, 1 / 2] True, Sync, SetPriority [7, 8] [1 / 4, 1]]\<rparr>)"
proof -
  have mx: "max (1 :: real) (1 / 10 ^ 12) = 1" by simp
  show ?thesis
    by (simp add: then_do_simps call_simps step_def body_def log_history_def update_state_def moving_avg_def
        torch_mean_def F_normalize_def mx sync_state_def advance_def row0_def col0_def)
qed

lemma emit_steps_append_Info:
  "emit_steps g (xs @ Info gs ls ep # ys) = emit_steps g xs @ emit_steps gs ys"
  by (induction g xs rule: emit_steps.induct) auto

lemma emit_steps_append_Sync: "emit_steps g (xs @ [Sync]) = emit_steps g xs"
  by (induction g xs rule: emit_steps.induct) auto

lemma torch_mean_length:
  "rows \<noteq> [] \<Longrightarrow> \<forall>r\<in>set rows. length r = n \<Longrightarrow> length (torch_mean rows) = n"
  by (cases rows) (auto simp: torch_mean_def)

lemma length_F_normalize: "length (F_normalize v) = length v"
  by (simp add: F_normalize_def)

lemma body_completes:
  assumes "forward env = Gives out" "backward env = Gives u1" "logging env = Gives u2"
    "log_history cfg env
       (s\<lparr>last_output := Some out, history := history s @ [out],
          events := events s @ [Info (global_step s) (local_step s) ep]\<rparr>) = (None, s1)"
    "tensorboard env = Gives u3" "update_state out s1 = (None, s2)"
    "sync_state cfg env s2 = (None, s3)" "empty_cache env = Gives u4"
  shows "step cfg ep env s =
           Inr (s3\<lparr>local_step := local_step s3 + 1, global_step := global_step s3 + 1\<rparr>)"
  using assms by (simp add: then_do_simps call_simps step_def body_def advance_def)

lemma log_history_clean:
  assumes "log_all env = Gives u" "log_interval cfg \<noteq> 0"
  shows "\<exists>s1. log_history cfg env s = (None, s1) \<and> row_weights s1 = row_weights s
           \<and> events s1 = events s \<and> local_step s1 = local_step s
           \<and> global_step s1 = global_step s"
  using assms by (simp add: then_do_simps call_simps log_history_def)

lemma update_state_clean:
  assumes "weights out \<noteq> []" "\<forall>r\<in>set (weights out). length r = n"
    "length (row_weights s) = n"
  shows "\<exists>s2. update_state out s = (None, s2) \<and> length (row_weights s2) = n
           \<and> events s2 = events s \<and> local_step s2 = local_step s
           \<and> global_step s2 = global_step s"
proof -
  have "length (torch_mean (weights out)) = n" using assms(1,2) by (rule torch_mean_length)
  then show ?thesis
    using assms(3) by (simp add: update_state_def moving_avg_def length_F_normalize)
qed

lemma sync_state_clean:
  assumes "emit env = Gives u" "sync env = Gives mg" "W mg \<noteq> []"
    "\<forall>r\<in>set (W mg). length r = n" "0 < n" "set_priority env = Gives u'"
    "sync_interval cfg \<noteq> 0" "length (row_weights s) = n"
  shows "\<exists>s3 tail. sync_state cfg env s = (None, s3) \<and> length (row_weights s3) = n
           \<and> events s3 = events s @ tail \<and> local_step s3 = local_step s
           \<and> global_step s3 = global_step s
           \<and> emit_steps g tail = (if (global_step s + 1) mod sync_interval cfg = 0 then [g] else [])"
proof -
  from assms(3) obtain r rs where w: "W mg = r # rs" by (cases "W mg") auto
  have lr: "length r = n" using assms(4) w by simp
  have ne: "\<forall>x\<in>set (W mg). x \<noteq> []" using assms(4,5) by auto
  have r0: "row0 (W mg) = Inr r" by (simp add: row0_def w)
  have c0: "col0 (W mg) = Inr (map hd (W mg))" using ne by (simp add: col0_def)
  show ?thesis
  proof (cases "(global_step s + 1) mod sync_interval cfg = 0")
    case True
    have "sync_state cfg env s =
        (None, s\<lparr>events := events s @ [Emit (row_weights s) True, Sync,
                     SetPriority (neurons mg) (map hd (W mg))],
                  metagraph := mg, row_weights := r\<rparr>)"
      using True assms(1,2,6,7) by (simp add: then_do_simps call_simps sync_state_def r0 c0)
    then show ?thesis using True lr by simp
  next
    case False
    then have "sync_state cfg env s = (None, s)" using assms(7) by (simp add: then_do_simps call_simps sync_state_def)
    then show ?thesis using False assms(8) by simp
  qed
qed

lemma step_clean:
  assumes "clean n env" "0 < n" "length (row_weights s) = n"
    "sync_interval cfg \<noteq> 0" "log_interval cfg \<noteq> 0"
  shows "\<exists>s'. step cfg ep env s = Inr s'
          \<and> local_step s' = local_step s + 1 \<and> global_step s' = global_step s + 1
          \<and> length (row_weights s') = n
          \<and> emit_steps g (events s') = emit_steps g (events s) @
              (if (global_step s + 1) mod sync_interval cfg = 0 then [global_step s] else [])"
proof -
  from assms(1) obtain out mg where
    f: "forward env = Gives out" and wo: "weights out \<noteq> []" "\<forall>r\<in>set (weights out). length r = n"
    and sy: "sync env = Gives mg" and wm: "W mg \<noteq> []" "\<forall>r\<in>set (W mg). length r = n"
    and rest: "backward env = Gives ()" "logging env = Gives ()" "log_all env = Gives ()"
      "tensorboard env = Gives ()" "emit env = Gives ()" "set_priority env = Gives ()"
      "empty_cache env = Gives ()"
    by (auto simp: clean_def split: call.splits)
  define s0 where "s0 = s\<lparr>last_output := Some out, history := history s @ [out],
          events := events s @ [Info (global_step s) (local_step s) ep]\<rparr>"
  from log_history_clean [OF rest(3) assms(5), of s0] obtain s1 where
    s1: "log_history cfg env s0 = (None, s1)" "row_weights s1 = row_weights s0"
      "events s1 = events s0" "local_step s1 = local_step s0" "global_step s1 = global_step s0"
    by blast
  have l1: "length (row_weights s1) = n" using s1(2) assms(3) by (simp add: s0_def)
  from update_state_clean [OF wo l1] obtain s2 where
    s2: "update_state out s1 = (None, s2)" "length (row_weights s2) = n"
      "events s2 = events s1" "local_step s2 = local_step s1" "global_step s2 = global_step s1"
    by blast
  from sync_state_clean [OF rest(5) sy wm assms(2) rest(6) assms(4) s2(2), of "global_step s"]
  obtain s3 tail where
    s3: "sync_state cfg env s2 = (None, s3)" "length (row_weights s3) = n"
      "events s3 = events s2 @ tail" "local_step s3 = local_step s2"
      "global_step s3 = global_step s2"
      "emit_steps (global_step s) tail =
         (if (global_step s2 + 1) mod sync_interval cfg = 0 then [global_step s] else [])"
    by blast
  have st: "step cfg ep env s =
           Inr (s3\<lparr>local_step := local_step s3 + 1, global_step := global_step s3 + 1\<rparr>)"
    using f rest(1,2) s1(1) rest(4) s2(1) s3(1) rest(7) unfolding s0_def
    by (rule body_completes)
  have ev: "events s3 = events s @ Info (global_step s) (local_step s) ep # tail"
    by (simp add: s3(3) s2(3) s1(3) s0_def)
  have gs: "global_step s3 = global_step s" "local_step s3 = local_step s"
    by (simp_all add: s3(4,5) s2(4,5) s1(4,5) s0_def)
  have gs2: "global_step s2 = global_step s" by (simp add: s2(5) s1(5) s0_def)
  show ?thesis
    apply (rule exI [where x = "s3\<lparr>local_step := local_step s3 + 1, global_step := global_step s3 + 1\<rparr>"])
    using st s3(2) s3(6) by (simp add: gs gs2 ev emit_steps_append_Info)
qed

lemma upto_filter_step:
  "filter P [g..g + int (Suc k) - 1] = (if P g then [g] else []) @ filter P [g + 1..g + 1 + int k - 1]"
  by (subst upto_rec1) (auto simp: algebra_simps)

lemma train_loop_clean:
  assumes "\<forall>env\<in>set envs. clean n env" "0 < n" "length (row_weights s) = n"
    "sync_interval cfg \<noteq> 0" "log_interval cfg \<noteq> 0"
    "local_step s = 10 - int (length envs)"
  shows "\<exists>s'. train_loop cfg ep envs s = Some (Inr s')
          \<and> global_step s' = global_step s + int (length envs)
          \<and> emit_steps g (events s') = emit_steps g (events s) @
              filter (\<lambda>x. (x + 1) mod sync_interval cfg = 0)
                [global_step s..global_step s + int (length envs) - 1]"
  using assms
proof (induction envs arbitrary: s)
  case Nil
  then show ?case by simp
next
  case (Cons env envs)
  have c: "clean n env" using Cons.prems(1) by simp
  from step_clean [OF c Cons.prems(2,3,4,5), of ep g] obtain s1 where
    s1: "step cfg ep env s = Inr s1" "local_step s1 = local_step s + 1"
      "global_step s1 = global_step s + 1" "length (row_weights s1) = n"
      "emit_steps g (events s1) = emit_steps g (events s) @
              (if (global_step s + 1) mod sync_interval cfg = 0 then [global_step s] else [])"
    by blast
  have ls: "local_step s < 10" using Cons.prems(6) by simp
  have l1: "local_step s1 = 10 - int (length envs)" using Cons.prems(6) s1(2) by simp
  from Cons.IH [OF _ Cons.prems(2) s1(4) Cons.prems(4,5) l1] Cons.prems(1) obtain s' where
    s': "train_loop cfg ep envs s1 = Some (Inr s')"
      "global_step s' = global_step s1 + int (length envs)"
      "emit_steps g (events s') = emit_steps g (events s1) @
              filter (\<lambda>x. (x + 1) mod sync_interval cfg = 0)
                [global_step s1..global_step s1 + int (length envs) - 1]"
    by auto
  have "train_loop cfg ep (env # envs) s = Some (Inr s')"
    using ls s1(1) s'(1) by simp
  moreover have "global_step s' = global_step s + int (length (env # envs))"
    using s'(2) s1(3) by simp
  moreover have "emit_steps g (events s') = emit_steps g (events s) @
              filter (\<lambda>x. (x + 1) mod sync_interval cfg = 0)
                [global_step s..global_step s + int (length (env # envs)) - 1]"
    unfolding s'(3) s1(5) s1(3) length_Cons upto_filter_step by simp
  ultimately show ?case by blast
qed


lemma train_clean:
  assumes "clean_epoch n ee" "0 < n" "sync_interval cfg \<noteq> 0" "log_interval cfg \<noteq> 0"
  shows "\<exists>s'. train cfg ee ep gs evs = Some (Inr s')
          \<and> global_step s' = gs + 10
          \<and> emit_steps g (events s') = emit_steps g evs @
              filter (\<lambda>x. (x + 1) mod sync_interval cfg = 0) [gs..gs + 9]"
proof -
  from assms(1) obtain mg where
    fs: "first_sync ee = Gives mg" and wm: "W mg \<noteq> []" "\<forall>r\<in>set (W mg). length r = n"
    and len: "length (batches ee) = 10" and cl: "\<forall>env\<in>set (batches ee). clean n env"
    by (auto simp: clean_epoch_def split: call.splits)
  from wm obtain r rs where w: "W mg = r # rs" by (cases "W mg") auto
  have lr: "length r = n" using wm(2) w by simp
  define s where "s = \<lparr>row_weights = r, history = [], local_step = 0, global_step = gs,
                  last_output = None, metagraph = mg, events = evs @ [Sync]\<rparr>"
  have tr: "train cfg ee ep gs evs = train_loop cfg ep (batches ee) s"
    by (simp add: train_def fs row0_def w s_def)
  have a: "length (row_weights s) = n" by (simp add: s_def lr)
  have b: "local_step s = 10 - int (length (batches ee))" by (simp add: s_def len)
  from train_loop_clean [OF cl assms(2) a assms(3,4) b, of ep g] obtain s' where
    s': "train_loop cfg ep (batches ee) s = Some (Inr s')"
      "global_step s' = global_step s + int (length (batches ee))"
      "emit_steps g (events s') = emit_steps g (events s) @
              filter (\<lambda>x. (x + 1) mod sync_interval cfg = 0)
                [global_step s..global_step s + int (length (batches ee)) - 1]"
    by blast
  have "emit_steps g (events s') = emit_steps g evs @
              filter (\<lambda>x. (x + 1) mod sync_interval cfg = 0) [gs..gs + 9]"
    using s'(3) by (simp add: s_def len emit_steps_append_Sync add.commute)
  moreover have "global_step s' = gs + 10" using s'(2) by (simp add: s_def len)
  ultimately show ?thesis using s'(1) tr by simp
qed

lemma main_epochs_clean:
  assumes "\<forall>ee\<in>set ees. clean_epoch n ee" "0 < n" "sync_interval cfg \<noteq> 0" "log_interval cfg \<noteq> 0"
  shows "\<exists>evs'. main_epochs cfg ees ep gs evs = Some (Inr (gs + 10 * int (length ees), evs'))
          \<and> emit_steps g evs' = emit_steps g evs @
              filter (\<lambda>x. (x + 1) mod sync_interval cfg = 0) [gs..gs + 10 * int (length ees) - 1]"
  using assms(1)
proof (induction ees arbitrary: ep gs evs)
  case Nil
  then show ?case by simp
next
  case (Cons ee ees)
  have c: "clean_epoch n ee" using Cons.prems by simp
  from train_clean [OF c assms(2,3,4), of "ep + 1" gs evs g] obtain s' where
    s': "train cfg ee (ep + 1) gs evs = Some (Inr s')" "global_step s' = gs + 10"
      "emit_steps g (events s') = emit_steps g evs @
              filter (\<lambda>x. (x + 1) mod sync_interval cfg = 0) [gs..gs + 9]"
    by blast
  from Cons.IH [of "ep + 1" "gs + 10" "events s'"] Cons.prems obtain evs' where
    e: "main_epochs cfg ees (ep + 1) (gs + 10) (events s')
          = Some (Inr (gs + 10 + 10 * int (length ees), evs'))"
      "emit_steps g evs' = emit_steps g (events s') @
              filter (\<lambda>x. (x + 1) mod sync_interval cfg = 0)
                [gs + 10..gs + 10 + 10 * int (length ees) - 1]"
    by auto
  have split: "[gs..gs + 10 * int (length (ee # ees)) - 1] =
      [gs..gs + 9] @ [gs + 10..gs + 10 + 10 * int (length ees) - 1]"
    using upto_split2 [of gs "gs + 9" "gs + 10 * int (length (ee # ees)) - 1"]
    by (simp add: algebra_simps)
  have "main_epochs cfg (ee # ees) ep gs evs
          = Some (Inr (gs + 10 * int (length (ee # ees)), evs'))"
    using s'(1,2) e(1) by (simp add: algebra_simps)
  moreover have "emit_steps g evs' = emit_steps g evs @
              filter (\<lambda>x. (x + 1) mod sync_interval cfg = 0)
                [gs..gs + 10 * int (length (ee # ees)) - 1]"
    unfolding split e(2) s'(3) by simp
  ultimately show ?case by blast
qed

lemma multiples: "filter (\<lambda>x. (x + 1) mod 100 = 0) [0..249::int] = [99, 199]"
  by code_simp

text \<open>
  C6. With \<^verbatim>\<open>sync_interval = 100\<close>, 250 local steps from global step 0 (25 calls of
  \<^verbatim>\<open>train\<close> of 10 steps each, no call raising) call \<^verbatim>\<open>emit\<close> exactly twice: at the global
  steps 99 and 199, which are the steps 100 and 200 counted from 1. The step 300 is not
  reached.
\<close>

theorem publishes_at_steps_100_and_200:
  assumes "sync_interval cfg = 100" and "log_interval cfg \<noteq> 0" and "0 < n"
    and "length ees = 25" and "\<forall>ee\<in>set ees. clean_epoch n ee"
  shows "\<exists>evs. main_epochs cfg ees (- 1) 0 [] = Some (Inr (250, evs))
           \<and> emit_steps 0 evs = [99, 199]
           \<and> map (\<lambda>g. g + 1) (emit_steps 0 evs) = [100, 200]"
proof -
  have si: "sync_interval cfg \<noteq> 0" using assms(1) by simp
  from main_epochs_clean [OF assms(5) assms(3) si assms(2), of "- 1" 0 "[]" 0]
  obtain evs where
    e: "main_epochs cfg ees (- 1) 0 [] = Some (Inr (0 + 10 * int (length ees), evs))"
      "emit_steps 0 evs = emit_steps 0 [] @
         filter (\<lambda>x. (x + 1) mod sync_interval cfg = 0) [0..0 + 10 * int (length ees) - 1]"
    by blast
  have "emit_steps 0 evs = [99, 199]"
    using e(2) by (simp add: assms(1,4) multiples)
  moreover have "main_epochs cfg ees (- 1) 0 [] = Some (Inr (250, evs))"
    using e(1) by (simp add: assms(4))
  ultimately show ?thesis by auto
qed


text \<open>
  Twenty-five epochs of ten equal passes over two peers.
\<close>

theorem publishes_at_steps_100_and_200_witness:
  "\<exists>evs. main_epochs \<lparr>sync_interval = 100, log_interval = 10\<rparr>
       (replicate 25
          \<lparr>first_sync = Gives \<lparr>neurons = [7, 8], W = [[0, 0], [0, 0]]\<rparr>,
           batches = replicate 10
             \<lparr>forward = Gives \<lparr>weights = [[1 / 2, 1 / 2]], local_target_loss = 2\<rparr>,
              backward = Gives (), logging = Gives (), log_all = Gives (),
              tensorboard = Gives (), emit = Gives (),
              sync = Gives \<lparr>neurons = [7, 8], W = [[1 / 4, 3 / 4], [1, 0]]\<rparr>,
              set_priority = Gives (), empty_cache = Gives ()\<rparr>\<rparr>)
       (- 1) 0 [] = Some (Inr (250, evs))
     \<and> emit_steps 0 evs = [99, 199]"
proof -
  let ?cfg = "\<lparr>sync_interval = 100, log_interval = 10\<rparr>"
  let ?env = "\<lparr>forward = Gives \<lparr>weights = [[1 / 2, 1 / 2]], local_target_loss = 2\<rparr>,
              backward = Gives (), logging = Gives (), log_all = Gives (),
              tensorboard = Gives (), emit = Gives (),
              sync = Gives \<lparr>neurons = [7, 8], W = [[1 / 4, 3 / 4], [1, 0]]\<rparr>,
              set_priority = Gives (), empty_cache = Gives ()\<rparr>"
  let ?ee = "\<lparr>first_sync = Gives \<lparr>neurons = [7, 8], W = [[0, 0], [0, 0]]\<rparr>,
           batches = replicate 10 ?env\<rparr>"
  have h1: "sync_interval ?cfg = 100" and h2: "log_interval ?cfg \<noteq> 0" and h3: "0 < (2::nat)"
    by simp_all
  have h4: "length (replicate 25 ?ee) = 25" by simp
  have h5: "\<forall>ee\<in>set (replicate 25 ?ee). clean_epoch 2 ee"
    by (simp add: clean_epoch_def clean_def)
  from publishes_at_steps_100_and_200 [OF h1 h2 h3 h4 h5] show ?thesis by blast
qed

section \<open>Properties of the supervision loop\<close>

lemma del_store: "del n (store n p ps) = del n ps"
  by (induction ps) (auto simp: del_def store_def)

lemma store_fresh:
  "\<forall>x\<in>set ps. fst (snd x) = new_process \<Longrightarrow> store n new_process ps = ps"
  by (induction ps) (auto simp: store_def)

lemma del_keys: "fst ` set (del n ps) = fst ` set ps - {n}"
  by (induction ps) (auto simp: del_def)

lemma del_distinct: "distinct (map fst ps) \<Longrightarrow> distinct (map fst (del n ps))"
  by (induction ps) (auto simp: del_def del_keys [unfolded del_def])

lemma del_fresh:
  "\<forall>x\<in>set ps. fst (snd x) = new_process \<Longrightarrow> \<forall>x\<in>set (del n ps). fst (snd x) = new_process"
  by (auto simp: del_def)

lemma map_of_fresh:
  assumes "n \<in> fst ` set ps" "\<forall>x\<in>set ps. fst (snd x) = new_process"
  shows "\<exists>c. map_of ps n = Some (new_process, c)"
proof -
  from assms(1) obtain v where "map_of ps n = Some v"
    by (metis domD dom_map_of_conv_image_fst)
  moreover from this have "(n, v) \<in> set ps" by (rule map_of_SomeD)
  ultimately show ?thesis using assms(2) by (cases v) auto
qed

lemma exception_new:
  "exception st new_process =
     (case pipe st of
        [] \<Rightarrow> (None, new_process)
      | m # ms \<Rightarrow> (m, new_process\<lparr>received := Suc 0, p_exception := m\<rparr>))"
  by (auto simp: exception_def new_process_def split: list.splits)

lemma exception_read:
  "pipe st = [m] \<Longrightarrow>
   exception st (new_process\<lparr>received := Suc 0, p_exception := m\<rparr>)
     = (m, new_process\<lparr>received := Suc 0, p_exception := m\<rparr>)"
  by (simp add: exception_def)

lemma check_fate:
  assumes "map_of ps n = Some (new_process, c)" "\<forall>x\<in>set ps. fst (snd x) = new_process"
  shows "check (status_at f t) n ps =
     (case fault_trace f t of
        Some tb \<Rightarrow>
          Raise (ChildProcessError tb)
            (terminate_all (store n (new_process\<lparr>received := Suc 0,
                                       p_exception := hd (pipe (status_at f t))\<rparr>) ps))
      | None \<Rightarrow>
          if exitcode (status_at f t) = Some 0 then Continue (del n ps) else Continue ps)"
proof (cases f)
  case Runs
  then show ?thesis using assms(1) by (simp add: check_def running_def fault_trace_def)
next
  case (Killed tau x)
  then show ?thesis using assms
    by (simp add: check_def running_def fault_trace_def exception_new del_store store_fresh)
next
  case (Exits tau b)
  show ?thesis
  proof (cases "t < tau")
    case True
    then show ?thesis using assms(1) Exits
      by (auto simp: check_def running_def fault_trace_def split: body.splits exc.splits)
  next
    case False
    show ?thesis
    proof (cases b)
      case Returns
      then show ?thesis using assms False Exits
        by (simp add: check_def fault_trace_def exception_new ended_def Process_run_def
            bootstrap_exitcode_def del_store)
    next
      case (Raises e tb)
      show ?thesis
      proof (cases e)
        case (Exception m)
        have st: "status_at f t = \<lparr>alive = False, exitcode = Some 0, pipe = [Some (e, tb)]\<rparr>"
          using False Exits Raises Exception
          by (simp add: ended_def Process_run_def bootstrap_exitcode_def)
        have ft: "fault_trace f t = Some tb"
          using False Exits Raises Exception by (simp add: fault_trace_def)
        show ?thesis
          unfolding ft st check_def using assms(1)
          by (simp add: exception_new exception_read)
      next
        case KeyboardInterrupt
        then show ?thesis using assms False Exits Raises
          by (simp add: check_def fault_trace_def exception_new ended_def Process_run_def
            bootstrap_exitcode_def del_store store_fresh)
      next
        case (SystemExit x)
        then show ?thesis using assms False Exits Raises
          by (simp add: check_def fault_trace_def exception_new ended_def Process_run_def
            bootstrap_exitcode_def del_store store_fresh)
      qed
    qed
  qed
qed


lemma keys_terminate_all: "keys_of (terminate_all ps) = keys_of ps"
  unfolding keys_of_def by (metis list.set_map terminate_all_keys)

lemma keys_store: "keys_of (store n p ps) = keys_of ps"
  unfolding keys_of_def by (metis list.set_map store_keys)

lemma keys_del: "keys_of (del n ps) = keys_of ps - {n}"
  unfolding keys_of_def by (rule del_keys)

lemma fresh_del: "fresh ps \<Longrightarrow> fresh (del n ps)"
  unfolding fresh_def by (rule del_fresh)

lemma terminate_all_all: "\<forall>x\<in>set (terminate_all ps). terminated (fst (snd x))"
  by (auto simp: terminate_all_def)

lemma check_quiet:
  assumes "n \<in> keys_of ps" "fresh ps" "fault_trace (fates n) (Suc t) = None"
  shows "\<exists>ps1. check (fate_world fates (Suc t) n) n ps = Continue ps1
           \<and> fresh ps1 \<and> keys_of ps - {n} \<subseteq> keys_of ps1 \<and> keys_of ps1 \<subseteq> keys_of ps
           \<and> (distinct (map fst ps) \<longrightarrow> distinct (map fst ps1))
           \<and> (\<forall>m\<in>keys_of ps - keys_of ps1. exits0 fates m)"
proof -
  from map_of_fresh [of n ps] assms(1,2) obtain c where
    mo: "map_of ps n = Some (new_process, c)" unfolding keys_of_def fresh_def by blast
  have fr: "\<forall>x\<in>set ps. fst (snd x) = new_process" using assms(2) by (simp add: fresh_def)
  note chk = check_fate [OF mo fr, of "fates n" "Suc t"]
  show ?thesis
  proof (cases "exitcode (status_at (fates n) (Suc t)) = Some 0")
    case True
    then have c: "check (fate_world fates (Suc t) n) n ps = Continue (del n ps)"
      using chk assms(3) by (simp add: fate_world_def)
    have e: "exits0 fates n" unfolding exits0_def using True assms(3) by blast
    show ?thesis
      apply (rule exI [where x = "del n ps"])
      using c e assms(2) by (auto simp: keys_del fresh_del del_distinct)
  next
    case False
    then have c: "check (fate_world fates (Suc t) n) n ps = Continue ps"
      using chk assms(3) by (simp add: fate_world_def)
    show ?thesis
      apply (rule exI [where x = ps])
      using c assms(2) by simp
  qed
qed

lemma check_fault:
  assumes "n \<in> keys_of ps" "fresh ps" "fault_trace (fates n) (Suc t) = Some tb"
  shows "\<exists>ps'. check (fate_world fates (Suc t) n) n ps = Raise (ChildProcessError tb) ps'
           \<and> keys_of ps' = keys_of ps \<and> (\<forall>x\<in>set ps'. terminated (fst (snd x)))"
proof -
  from map_of_fresh [of n ps] assms(1,2) obtain c where
    mo: "map_of ps n = Some (new_process, c)" unfolding keys_of_def fresh_def by blast
  have fr: "\<forall>x\<in>set ps. fst (snd x) = new_process" using assms(2) by (simp add: fresh_def)
  note chk = check_fate [OF mo fr, of "fates n" "Suc t"]
  let ?ps' = "terminate_all (store n (new_process\<lparr>received := Suc 0,
                   p_exception := hd (pipe (status_at (fates n) (Suc t)))\<rparr>) ps)"
  have "check (fate_world fates (Suc t) n) n ps = Raise (ChildProcessError tb) ?ps'"
    using chk assms(3) by (simp add: fate_world_def)
  moreover have "keys_of ?ps' = keys_of ps" by (simp add: keys_terminate_all keys_store)
  moreover have "\<forall>x\<in>set ?ps'. terminated (fst (snd x))" by (rule terminate_all_all)
  ultimately show ?thesis by blast
qed

lemma poll_quiet:
  assumes "distinct (map fst ps)" "fresh ps" "set ns \<subseteq> keys_of ps" "distinct ns"
    "\<forall>j<length ns. fault_trace (fates (ns ! j)) (length polled + j + 1) = None"
  shows "\<exists>ps'. poll (fate_world fates) polled ns ps = Continue (polled @ ns, ps')
            \<and> distinct (map fst ps') \<and> fresh ps'
            \<and> keys_of ps - set ns \<subseteq> keys_of ps' \<and> keys_of ps' \<subseteq> keys_of ps
            \<and> (\<forall>m\<in>keys_of ps - keys_of ps'. exits0 fates m)"
  using assms
proof (induction ns arbitrary: polled ps)
  case Nil
  then show ?case by simp
next
  case (Cons n ns)
  have nin: "n \<in> keys_of ps" using Cons.prems(3) by simp
  have q0: "fault_trace (fates n) (Suc (length polled)) = None" using Cons.prems(5) by auto
  from check_quiet [of n ps fates "length polled", OF nin Cons.prems(2) q0] Cons.prems(1)
  obtain ps1 where
    c1: "check (fate_world fates (Suc (length polled)) n) n ps = Continue ps1" "fresh ps1"
      "keys_of ps - {n} \<subseteq> keys_of ps1" "keys_of ps1 \<subseteq> keys_of ps" "distinct (map fst ps1)"
      "\<forall>m\<in>keys_of ps - keys_of ps1. exits0 fates m"
    by blast
  have s1: "set ns \<subseteq> keys_of ps1" using Cons.prems(3,4) c1(3) by auto
  have dn: "distinct ns" using Cons.prems(4) by simp
  have q1: "\<forall>j<length ns. fault_trace (fates (ns ! j)) (length (polled @ [n]) + j + 1) = None"
  proof (intro allI impI)
    fix j assume "j < length ns"
    then have "fault_trace (fates ((n # ns) ! Suc j)) (length polled + Suc j + 1) = None"
      using Cons.prems(5) by (metis Suc_less_eq length_Cons)
    then show "fault_trace (fates (ns ! j)) (length (polled @ [n]) + j + 1) = None" by simp
  qed
  from Cons.IH [OF c1(5) c1(2) s1 dn q1] obtain ps' where
    r: "poll (fate_world fates) (polled @ [n]) ns ps1 = Continue ((polled @ [n]) @ ns, ps')"
      "distinct (map fst ps')" "fresh ps'" "keys_of ps1 - set ns \<subseteq> keys_of ps'"
      "keys_of ps' \<subseteq> keys_of ps1" "\<forall>m\<in>keys_of ps1 - keys_of ps'. exits0 fates m"
    by blast
  have "poll (fate_world fates) polled (n # ns) ps = Continue (polled @ n # ns, ps')"
    using c1(1) r(1) by simp
  moreover have "keys_of ps - set (n # ns) \<subseteq> keys_of ps'" using c1(3) r(4) by auto
  moreover have "keys_of ps' \<subseteq> keys_of ps" using c1(4) r(5) by auto
  moreover have "\<forall>m\<in>keys_of ps - keys_of ps'. exits0 fates m" using c1(6) r(6) by blast
  ultimately show ?case using r(2,3) by blast
qed

lemma poll_append:
  "poll w polled (xs @ ys) qs =
     (case poll w polled xs qs of
        Raise e r \<Rightarrow> Raise e r
      | Continue (polled', qs') \<Rightarrow> poll w polled' ys qs')"
  by (induction xs arbitrary: polled qs) (auto split: step.splits)

lemma poll_fault:
  assumes "distinct (map fst ps)" "fresh ps" "set ns \<subseteq> keys_of ps" "distinct ns"
    "i < length ns" "fault_trace (fates (ns ! i)) (length polled + i + 1) = Some tb"
    "\<forall>j<i. fault_trace (fates (ns ! j)) (length polled + j + 1) = None"
  shows "\<exists>ps'. poll (fate_world fates) polled ns ps
              = Raise (ChildProcessError tb) (polled @ take (Suc i) ns, ps')
            \<and> (\<forall>x\<in>set ps'. terminated (fst (snd x)))
            \<and> keys_of ps - set (take i ns) \<subseteq> keys_of ps' \<and> keys_of ps' \<subseteq> keys_of ps
            \<and> (\<forall>m\<in>keys_of ps - keys_of ps'. exits0 fates m)"
proof -
  have ns: "ns = take i ns @ ns ! i # drop (Suc i) ns" using assms(5) by (rule id_take_nth_drop)
  have pre: "set (take i ns) \<subseteq> keys_of ps" "distinct (take i ns)"
    using assms(3,4) by (auto dest: in_set_takeD)
  have qa: "\<forall>j<length (take i ns). fault_trace (fates (take i ns ! j)) (length polled + j + 1) = None"
    using assms(7) by simp
  from poll_quiet [OF assms(1,2) pre qa] obtain ps1 where
    r: "poll (fate_world fates) polled (take i ns) ps = Continue (polled @ take i ns, ps1)"
      "distinct (map fst ps1)" "fresh ps1" "keys_of ps - set (take i ns) \<subseteq> keys_of ps1"
      "keys_of ps1 \<subseteq> keys_of ps" "\<forall>m\<in>keys_of ps - keys_of ps1. exits0 fates m"
    by blast
  have notin: "ns ! i \<notin> set (take i ns)"
    using assms(4,5) by (metis distinct_take id_take_nth_drop not_distinct_conv_prefix ns)
  have kin: "ns ! i \<in> keys_of ps1" using assms(3) nth_mem [OF assms(5)] r(4) notin by auto
  from check_fault [of "ns ! i" ps1 fates "length polled + i" tb, OF kin r(3)] assms(6)
  obtain ps' where
    c: "check (fate_world fates (Suc (length polled + i)) (ns ! i)) (ns ! i) ps1
          = Raise (ChildProcessError tb) ps'"
      "keys_of ps' = keys_of ps1" "\<forall>x\<in>set ps'. terminated (fst (snd x))"
    by auto
  have tk: "take (Suc i) ns = take i ns @ [ns ! i]" using assms(5) by (rule take_Suc_conv_app_nth)
  have "poll (fate_world fates) polled (take i ns @ ns ! i # drop (Suc i) ns) ps
          = Raise (ChildProcessError tb) (polled @ take (Suc i) ns, ps')"
    unfolding poll_append r(1) using c(1) assms(5) by (simp add: tk min_absorb2)
  then have "poll (fate_world fates) polled ns ps
          = Raise (ChildProcessError tb) (polled @ take (Suc i) ns, ps')"
    using ns by simp
  moreover have "keys_of ps - set (take i ns) \<subseteq> keys_of ps'" using r(4) c(2) by simp
  moreover have "keys_of ps' \<subseteq> keys_of ps" using r(5) c(2) by simp
  moreover have "\<forall>m\<in>keys_of ps - keys_of ps'. exits0 fates m" using r(6) c(2) by simp
  ultimately show ?thesis using c(3) by blast
qed

lemma fault_trace_SomeD:
  "fault_trace f t = Some tb \<Longrightarrow> \<exists>tau m. f = Exits tau (Raises (Exception m) tb) \<and> tau \<le> t"
  by (auto simp: fault_trace_def split: fate.splits body.splits exc.splits if_splits)

lemma fault_trace_Exception:
  "fault_trace (Exits tau (Raises (Exception m) tb)) t = (if t < tau then None else Some tb)"
  by (simp add: fault_trace_def)

lemma not_exits0_fault:
  "fates k = Exits tau (Raises (Exception m) tb) \<Longrightarrow> \<not> exits0 fates k"
  by (auto simp: exits0_def fault_trace_def running_def)

lemma pass_cases:
  obtains (fault) i where "i < length ns" "fault_trace (fates (ns ! i)) (t + i + 1) \<noteq> None"
      "\<forall>j<i. fault_trace (fates (ns ! j)) (t + j + 1) = None"
  | (quiet) "\<forall>j<length ns. fault_trace (fates (ns ! j)) (t + j + 1) = None"
proof (cases "\<exists>i. i < length ns \<and> fault_trace (fates (ns ! i)) (t + i + 1) \<noteq> None")
  case True
  define P where "P i \<longleftrightarrow> i < length ns \<and> fault_trace (fates (ns ! i)) (t + i + 1) \<noteq> None" for i
  from True have ex: "\<exists>i. P i" by (simp add: P_def)
  define i where "i = (LEAST i. P i)"
  have Pi: "P i" unfolding i_def using ex by (metis LeastI)
  have least: "\<not> P j" if "j < i" for j using that unfolding i_def by (rule not_less_Least)
  have "\<forall>j<i. fault_trace (fates (ns ! j)) (t + j + 1) = None"
  proof (intro allI impI)
    fix j assume ji: "j < i"
    then have "j < length ns" using Pi by (simp add: P_def)
    with least [OF ji] show "fault_trace (fates (ns ! j)) (t + j + 1) = None"
      by (simp add: P_def)
  qed
  with Pi show ?thesis by (intro fault [of i]) (simp_all add: P_def)
next
  case False
  then show ?thesis by (intro quiet) auto
qed

lemma supervise_fault:
  assumes "distinct (map fst ps)" "fresh ps" "k \<in> keys_of ps"
    "fates k = Exits tau (Raises (Exception m) tb)" "0 < fuel" "tau < fuel + length polled"
  shows "\<exists>tb' new ps'. supervise fuel (fate_world fates) polled ps
              = Some (Raised (ChildProcessError tb') (polled @ new, ps'))
           \<and> new \<noteq> []
           \<and> fault_trace (fates (last new)) (length polled + length new) = Some tb'
           \<and> (\<forall>i<length new - 1. fault_trace (fates (new ! i)) (length polled + i + 1) = None)
           \<and> last new \<in> keys_of ps'
           \<and> (\<forall>x\<in>set ps'. terminated (fst (snd x)))
           \<and> k \<in> keys_of ps' \<and> keys_of ps' \<subseteq> keys_of ps
           \<and> (\<forall>n\<in>keys_of ps - keys_of ps'. exits0 fates n)"
  using assms
proof (induction fuel arbitrary: polled ps)
  case 0
  then show ?case by simp
next
  case (Suc fuel)
  let ?ns = "map fst ps"
  have ne: "length ps > 0" using Suc.prems(3) by (auto simp: keys_of_def)
  have sub: "set ?ns \<subseteq> keys_of ps" by (simp add: keys_of_def)
  have nk: "\<not> exits0 fates k" using Suc.prems(4) by (rule not_exits0_fault)
  show ?case
  proof (cases rule: pass_cases [of ?ns fates "length polled"])
    case (fault i)
    then obtain tb' where tb': "fault_trace (fates (?ns ! i)) (length polled + i + 1) = Some tb'"
      by auto
    from poll_fault [OF Suc.prems(1,2) sub Suc.prems(1) fault(1) tb' fault(3)] obtain ps' where
      r: "poll (fate_world fates) polled ?ns ps
            = Raise (ChildProcessError tb') (polled @ take (Suc i) ?ns, ps')"
        "\<forall>x\<in>set ps'. terminated (fst (snd x))"
        "keys_of ps - set (take i ?ns) \<subseteq> keys_of ps'" "keys_of ps' \<subseteq> keys_of ps"
        "\<forall>m\<in>keys_of ps - keys_of ps'. exits0 fates m"
      by blast
    define new where "new = take (Suc i) ?ns"
    have sup: "supervise (Suc fuel) (fate_world fates) polled ps
        = Some (Raised (ChildProcessError tb') (polled @ new, ps'))"
      using ne r(1) by (simp add: new_def)
    have ln: "length new = Suc i" using fault(1) by (simp add: new_def)
    have nn: "new \<noteq> []" using ln by auto
    have tk: "new = take i ?ns @ [?ns ! i]"
      unfolding new_def using fault(1) by (rule take_Suc_conv_app_nth)
    have la: "last new = ?ns ! i" by (simp add: tk)
    have nth: "new ! j = ?ns ! j" if "j < i" for j using that by (simp add: new_def)
    have jn: "?ns ! i \<notin> set (take i ?ns)"
      using Suc.prems(1) fault(1)
      by (metis distinct_take id_take_nth_drop not_distinct_conv_prefix)
    have jin: "last new \<in> keys_of ps'"
      unfolding la using r(3) jn nth_mem [OF fault(1)] sub by auto
    have kin: "k \<in> keys_of ps'" using r(5) nk Suc.prems(3) by blast
    have ft: "fault_trace (fates (last new)) (length polled + length new) = Some tb'"
      unfolding la ln using tb' by simp
    have qt: "\<forall>j<length new - 1. fault_trace (fates (new ! j)) (length polled + j + 1) = None"
      using fault(3) nth by (simp add: ln)
    show ?thesis
      apply (rule exI [where x = tb'], rule exI [where x = new], rule exI [where x = ps'])
      using sup nn ft qt jin r(2,4,5) kin by simp
  next
    case quiet
    from poll_quiet [OF Suc.prems(1,2) sub Suc.prems(1) quiet] obtain ps' where
      r: "poll (fate_world fates) polled ?ns ps = Continue (polled @ ?ns, ps')"
        "distinct (map fst ps')" "fresh ps'" "keys_of ps' \<subseteq> keys_of ps"
        "\<forall>m\<in>keys_of ps - keys_of ps'. exits0 fates m"
      by blast
    have kin: "k \<in> keys_of ps'" using r(5) nk Suc.prems(3) by blast
    from Suc.prems(3) obtain p where p: "p < length ?ns" "?ns ! p = k"
      by (metis in_set_conv_nth keys_of_def list.set_map)
    have "fault_trace (fates k) (length polled + p + 1) = None" using quiet p by auto
    then have early: "length polled + p + 1 < tau"
      by (simp add: Suc.prems(4) fault_trace_Exception split: if_splits)
    have f0: "0 < fuel" using early Suc.prems(6) by simp
    have "1 \<le> length ps" using ne by (cases ps) simp_all
    then have f1: "tau < fuel + length (polled @ ?ns)" using Suc.prems(6) by simp
    from Suc.IH [OF r(2,3) kin Suc.prems(4) f0 f1] obtain tb' new' ps'' where
      ih: "supervise fuel (fate_world fates) (polled @ ?ns) ps'
              = Some (Raised (ChildProcessError tb') ((polled @ ?ns) @ new', ps''))"
        "new' \<noteq> []"
        "fault_trace (fates (last new')) (length (polled @ ?ns) + length new') = Some tb'"
        "\<forall>i<length new' - 1. fault_trace (fates (new' ! i)) (length (polled @ ?ns) + i + 1) = None"
        "last new' \<in> keys_of ps''"
        "\<forall>x\<in>set ps''. terminated (fst (snd x))"
        "k \<in> keys_of ps''" "keys_of ps'' \<subseteq> keys_of ps'"
        "\<forall>n\<in>keys_of ps' - keys_of ps''. exits0 fates n"
      by blast
    define new where "new = ?ns @ new'"
    have sup: "supervise (Suc fuel) (fate_world fates) polled ps
              = Some (Raised (ChildProcessError tb') (polled @ new, ps''))"
      using ne r(1) ih(1) by (simp add: new_def)
    have nn: "new \<noteq> []" using ih(2) by (simp add: new_def)
    have la: "last new = last new'" using ih(2) by (simp add: new_def)
    have ft: "fault_trace (fates (last new)) (length polled + length new) = Some tb'"
      unfolding la using ih(3) by (simp add: new_def add.assoc)
    have qt: "\<forall>j<length new - 1. fault_trace (fates (new ! j)) (length polled + j + 1) = None"
    proof (intro allI impI)
      fix j assume j: "j < length new - 1"
      show "fault_trace (fates (new ! j)) (length polled + j + 1) = None"
      proof (cases "j < length ?ns")
        case True
        then have "new ! j = ?ns ! j" by (simp add: new_def nth_append)
        with quiet True show ?thesis by simp
      next
        case False
        then have eq: "new ! j = new' ! (j - length ?ns)" by (simp add: new_def nth_append)
        have "j - length ?ns < length new' - 1" using j False by (simp add: new_def)
        with ih(4) have "fault_trace (fates (new' ! (j - length ?ns)))
            (length (polled @ ?ns) + (j - length ?ns) + 1) = None" by blast
        moreover have "length (polled @ ?ns) + (j - length ?ns) + 1 = length polled + j + 1"
          using False by simp
        ultimately show ?thesis using eq by simp
      qed
    qed
    have s2: "keys_of ps'' \<subseteq> keys_of ps" using ih(8) r(4) by simp
    have g2: "\<forall>n\<in>keys_of ps - keys_of ps''. exits0 fates n" using ih(9) r(5) by blast
    show ?thesis
      apply (rule exI [where x = tb'], rule exI [where x = new], rule exI [where x = ps''])
      using sup nn ft qt ih(5,6,7) s2 g2 la by simp
  qed
qed



lemma launch_keys: "map fst (launch cfgs) = [0..<length cfgs]"
proof -
  have "map fst (launch cfgs) = map fst (enumerate 0 cfgs)"
    by (simp add: launch_def case_prod_unfold comp_def)
  then show ?thesis by (simp add: map_fst_enumerate)
qed

lemma launch_fresh: "fresh (launch cfgs)"
  by (auto simp: fresh_def launch_def)

lemma launch_distinct: "distinct (map fst (launch cfgs))"
  by (simp add: launch_keys)

lemma launch_key_set: "keys_of (launch cfgs) = {0..<length cfgs}"
  using launch_keys [of cfgs] by (metis keys_of_def list.set_map set_upt)

text \<open>
  C1. A pool of \<open>N \<ge> 2\<close> workers, each with a life of its own, and a worker \<open>k\<close>, at
  any index, whose body raises an \<^verbatim>\<open>Exception\<close> at tick \<open>tau\<close> (from then on its fault slot
  holds the pair and the process has ended). With more than \<open>tau\<close> passes of fuel the
  supervision loop raises one \<^verbatim>\<open>ChildProcessError\<close>. Its message is the trace of the
  first child the loop observed with a populated fault slot: of the polls made, listed
  in \<open>polled\<close>, the last one found that trace in the slot of the child it polled, and no
  poll before it found a fault. When \<open>k\<close> is the only worker whose body raises, the
  message is the trace of \<open>k\<close>. Every process still in the dictionary is terminated, the
  faulting child and \<open>k\<close> among them, and a worker that is no longer in the dictionary had
  exited with status 0 and was reaped.
\<close>

theorem supervise_raises_first_fault:
  assumes "2 \<le> length cfgs" and "k < length cfgs"
    and "fates k = Exits tau (Raises (Exception m) tb)" and "tau < fuel"
  shows "\<exists>tb' polled ps.
      neuron_run fuel (fate_world fates) cfg cfgs
        = Supervised (Some (Raised (ChildProcessError tb') (polled, ps)))
      \<and> polled \<noteq> [] \<and> last polled < length cfgs
      \<and> fault_trace (fates (last polled)) (length polled) = Some tb'
      \<and> (\<forall>i<length polled - 1. fault_trace (fates (polled ! i)) (i + 1) = None)
      \<and> (\<forall>x\<in>set ps. terminated (fst (snd x)))
      \<and> last polled \<in> keys_of ps \<and> k \<in> keys_of ps
      \<and> (\<forall>n<length cfgs. n \<in> keys_of ps \<or> exits0 fates n)
      \<and> ((\<forall>i<length cfgs. \<forall>tau' m' tb''.
              fates i = Exits tau' (Raises (Exception m') tb'') \<longrightarrow> i = k) \<longrightarrow> tb' = tb)"
proof -
  have run: "neuron_run fuel (fate_world fates) cfg cfgs
      = Supervised (supervise fuel (fate_world fates) [] (launch cfgs))"
    using assms(1) by (simp add: neuron_run_def)
  have kin: "k \<in> keys_of (launch cfgs)" using assms(2) by (simp add: launch_key_set)
  have f0: "0 < fuel" and f1: "tau < fuel + length ([] :: nat list)" using assms(4) by simp_all
  from supervise_fault [of "launch cfgs" k fates tau m tb fuel "[]",
      OF launch_distinct launch_fresh kin assms(3) f0 f1]
  obtain tb' polled ps where
    r: "supervise fuel (fate_world fates) [] (launch cfgs)
              = Some (Raised (ChildProcessError tb') ([] @ polled, ps))"
      "polled \<noteq> []"
      "fault_trace (fates (last polled)) (length ([] :: nat list) + length polled) = Some tb'"
      "\<forall>i<length polled - 1.
          fault_trace (fates (polled ! i)) (length ([] :: nat list) + i + 1) = None"
      "last polled \<in> keys_of ps"
      "\<forall>x\<in>set ps. terminated (fst (snd x))"
      "k \<in> keys_of ps" "keys_of ps \<subseteq> keys_of (launch cfgs)"
      "\<forall>n\<in>keys_of (launch cfgs) - keys_of ps. exits0 fates n"
    by blast
  have ft: "fault_trace (fates (last polled)) (length polled) = Some tb'" using r(3) by simp
  have qt: "\<forall>i<length polled - 1. fault_trace (fates (polled ! i)) (i + 1) = None"
    using r(4) by simp
  from fault_trace_SomeD [OF ft] obtain tau' m' where
    fj: "fates (last polled) = Exits tau' (Raises (Exception m') tb')" by blast
  have jl: "last polled < length cfgs" using r(5,8) by (auto simp: launch_key_set)
  have gone: "\<forall>n<length cfgs. n \<in> keys_of ps \<or> exits0 fates n"
    using r(9) by (auto simp: launch_key_set)
  have uniq: "tb' = tb"
    if "\<forall>i<length cfgs. \<forall>tau' m' tb''.
              fates i = Exits tau' (Raises (Exception m') tb'') \<longrightarrow> i = k"
  proof -
    from that jl fj have "last polled = k" by blast
    with fj assms(3) show ?thesis by simp
  qed
  show ?thesis
    apply (rule exI [where x = tb'], rule exI [where x = polled], rule exI [where x = ps])
    using run r(1,2,5,6,7) jl ft qt gone uniq by simp
qed

text \<open>
  Three workers: the first runs on, the second raises at tick 2, the third returns at
  tick 1.
\<close>

theorem supervise_raises_first_fault_witness:
  "\<exists>polled ps. neuron_run 3
          (fate_world (\<lambda>n. if n = 1 then Exits 2 (Raises (Exception ''boom'') ''trace'')
                            else if n = 2 then Exits 1 Returns else Runs))
          ''cfg'' [''a'', ''b'', ''c'']
        = Supervised (Some (Raised (ChildProcessError ''trace'') (polled, ps)))
      \<and> last polled = 1
      \<and> (\<forall>x\<in>set ps. terminated (fst (snd x))) \<and> 1 \<in> keys_of ps"
proof -
  let ?F = "\<lambda>n::nat. if n = 1 then Exits 2 (Raises (Exception ''boom'') ''trace'')
                            else if n = 2 then Exits 1 Returns else Runs"
  have h1: "2 \<le> length [''a'', ''b'', ''c'']" and h2: "1 < length [''a'', ''b'', ''c'']"
    and h3: "?F 1 = Exits 2 (Raises (Exception ''boom'') ''trace'')" and h4: "(2::nat) < 3"
    by simp_all
  from supervise_raises_first_fault [of "[''a'', ''b'', ''c'']" 1 ?F 2 "''boom''" "''trace''" 3 "''cfg''",
      OF h1 h2 h3 h4]
  obtain tb' polled ps where
    r: "neuron_run 3 (fate_world ?F) ''cfg'' [''a'', ''b'', ''c'']
          = Supervised (Some (Raised (ChildProcessError tb') (polled, ps)))"
      "fault_trace (?F (last polled)) (length polled) = Some tb'"
      "\<forall>x\<in>set ps. terminated (fst (snd x))" "1 \<in> keys_of ps"
      "(\<forall>i<length [''a'', ''b'', ''c'']. \<forall>tau' m' tb''.
              ?F i = Exits tau' (Raises (Exception m') tb'') \<longrightarrow> i = 1) \<longrightarrow> tb' = ''trace''"
    by blast
  have "\<forall>i<length [''a'', ''b'', ''c'']. \<forall>tau' m' tb''.
              ?F i = Exits tau' (Raises (Exception m') tb'') \<longrightarrow> i = 1"
    by (auto split: if_splits)
  with r(5) have t: "tb' = ''trace''" by blast
  have l: "last polled = 1"
    using r(2) by (cases "last polled = 1") (auto simp: fault_trace_def split: if_splits)
  from t l r(1,3,4) show ?thesis by blast
qed





end
